theory Spec2Isabelle
  imports Complex_Main
begin

section \<open>The city pop chord generator: data model\<close>

text \<open>
  A shallow embedding of the class \<open>EnhancedCityPopGenerator\<close> and of the exported
  function \<open>generateAndDownloadMidi\<close>: first the variant with generation options,
  then the earlier variant without them.

  Conventions of the embedding.
  \<^item> JavaScript numbers are idealised: pitches are \<open>int\<close> (every pitch the program
    computes is a small integer, on which double arithmetic is exact), tempo, times,
    velocities and the tension arc are \<open>real\<close>.
  \<^item> \<open>Math.random()\<close> is a tape \<open>rs :: nat \<Rightarrow> real\<close> read at a counter \<open>k\<close>; a function
    that draws returns the advanced counter. The draws are taken in the source's
    evaluation order. \<open>valid_rand\<close> states that every draw lies in \<open>[0, 1)\<close>.
  \<^item> \<open>Date.now()\<close> is a parameter \<open>now\<close>.
  \<^item> A thrown exception is the left summand of a sum type.
  \<^item> The MIDI encoder is a library outside the repository. The call
    \<open>midi.toArray()\<close> is a parameter \<open>toArray\<close> of the two public operations: a function
    of the tempo and of the note events handed to \<open>track.addNote\<close> that returns the
    bytes or throws. Every statement below holds for every such function.
\<close>

datatype era = E70s | Early80s | Mid80s | Late80s

datatype style = Ballad | Uptempo | Fusion

datatype category = Citypop | FusionCat | Jazz | BalladCat

datatype error = TypeError | EncoderError | GenerationFailed

record ExtendedVoicing =
  intervals :: "int list"
  tensions :: "int list"
  alterations :: "int list"
  category :: category
  weight :: real
  v_era :: "era option"
  artistStyle :: "string option"

record ProgressionTemplate =
  roots :: "int list"
  weights :: "real list"
  p_style :: string
  p_complexity :: real

record StyleSettings =
  tempoRange :: "real \<times> real"
  velocityRange :: "real \<times> real"
  swingFactor :: real

record options =
  era :: "era option"
  style :: "style option"
  artistInfluence :: "string option"
  o_complexity :: "real option"

record note_event =
  midi :: int
  time :: real
  duration :: real
  velocity :: real

text \<open>
  What one iteration of the driver's loop leaves behind: the tape position at which it
  starts, the array \<open>notes\<close> as \<open>createRichVoicing\<close> returns it, the same array after
  the voice-leading block, and the note events added to the track.
\<close>

record chord_trace =
  drawn :: nat
  built :: "int list"
  smoothed :: "int list"
  events :: "note_event list"

type_synonym bytes = "nat list"

type_synonym encoder = "real \<Rightarrow> note_event list \<Rightarrow> error + bytes"

record piece =
  data :: bytes
  tempo :: real
  name :: string

record descriptor =
  url :: bytes
  filename :: string

type_synonym rand = "nat \<Rightarrow> real"

definition valid_rand :: "rand \<Rightarrow> bool" where
  "valid_rand rs = (\<forall>n. 0 \<le> rs n \<and> rs n < 1)"

definition no_options :: options where
  "no_options = \<lparr>era = None, style = None, artistInfluence = None, o_complexity = None\<rparr>"

subsection \<open>The catalogs\<close>

text \<open>The object \<open>voicings\<close>, in key insertion order (the order of \<open>Object.keys\<close>).\<close>

definition voicings :: "(string \<times> ExtendedVoicing) list" where
  "voicings =
    [(''maj9'', \<lparr>intervals = [0, 4, 7, 11, 14], tensions = [9, 13], alterations = [8, 15],
        category = Citypop, weight = 1, v_era = Some Early80s, artistStyle = None\<rparr>),
     (''maj7_13'', \<lparr>intervals = [0, 4, 7, 11, 21], tensions = [9, 13], alterations = [8, 15],
        category = Citypop, weight = 8 / 10, v_era = Some Mid80s, artistStyle = None\<rparr>),
     (''min11'', \<lparr>intervals = [0, 3, 7, 10, 14, 17], tensions = [15, 22], alterations = [8],
        category = Citypop, weight = 7 / 10, v_era = Some Early80s, artistStyle = None\<rparr>),
     (''maj9_13'', \<lparr>intervals = [0, 4, 7, 11, 14, 21], tensions = [13, 15],
        alterations = [8, 22], category = Jazz, weight = 9 / 10, v_era = None,
        artistStyle = Some ''Tatsuro Yamashita''\<rparr>),
     (''maj7_9_13'', \<lparr>intervals = [0, 4, 7, 11, 14, 21], tensions = [13, 15, 22],
        alterations = [8, 15], category = BalladCat, weight = 7 / 10, v_era = None,
        artistStyle = Some ''Mariya Takeuchi''\<rparr>),
     (''kadomatsu_fusion'', \<lparr>intervals = [0, 4, 7, 10, 15, 21], tensions = [9, 13, 15],
        alterations = [8, 22], category = FusionCat, weight = 8 / 10, v_era = None,
        artistStyle = Some ''Toshiki Kadomatsu''\<rparr>),
     (''anri_pop'', \<lparr>intervals = [0, 4, 7, 11, 14], tensions = [9, 13], alterations = [15],
        category = Citypop, weight = 85 / 100, v_era = None, artistStyle = Some ''Anri''\<rparr>)]"

definition progressionTemplates :: "ProgressionTemplate list" where
  "progressionTemplates =
    [\<lparr>roots = [0, 5, 3, 4], weights = [1, 8 / 10, 7 / 10, 9 / 10],
        p_style = ''standard'', p_complexity = 7 / 10\<rparr>,
     \<lparr>roots = [0, 5, 1, 4], weights = [1, 7 / 10, 8 / 10, 9 / 10],
        p_style = ''jazz'', p_complexity = 8 / 10\<rparr>,
     \<lparr>roots = [3, 4, 0, 5, 1], weights = [8 / 10, 9 / 10, 1, 7 / 10, 8 / 10],
        p_style = ''fusion'', p_complexity = 9 / 10\<rparr>,
     \<lparr>roots = [0, 2, 5, 1], weights = [1, 6 / 10, 7 / 10, 8 / 10],
        p_style = ''ballad'', p_complexity = 6 / 10\<rparr>]"

fun styleSettings :: "style \<Rightarrow> StyleSettings" where
  "styleSettings Ballad =
     \<lparr>tempoRange = (65, 80), velocityRange = (60, 85), swingFactor = 2 / 10\<rparr>"
| "styleSettings Uptempo =
     \<lparr>tempoRange = (120, 135), velocityRange = (75, 95), swingFactor = 4 / 10\<rparr>"
| "styleSettings Fusion =
     \<lparr>tempoRange = (90, 110), velocityRange = (70, 90), swingFactor = 3 / 10\<rparr>"

fun style_name :: "style \<Rightarrow> string" where
  "style_name Ballad = ''ballad''"
| "style_name Uptempo = ''uptempo''"
| "style_name Fusion = ''fusion''"

fun era_name :: "era \<Rightarrow> string" where
  "era_name E70s = ''70s''"
| "era_name Early80s = ''early80s''"
| "era_name Mid80s = ''mid80s''"
| "era_name Late80s = ''late80s''"

text \<open>\<open>this.options.style || 'uptempo'\<close>.\<close>

definition active_style :: "options \<Rightarrow> style" where
  "active_style opts = (case style opts of None \<Rightarrow> Uptempo | Some s \<Rightarrow> s)"

subsection \<open>JavaScript primitives\<close>

text \<open>\<open>Math.floor(Math.random() * n)\<close> for the draw \<open>r\<close>.\<close>

definition random_index :: "real \<Rightarrow> nat \<Rightarrow> nat" where
  "random_index r n = nat \<lfloor>r * real n\<rfloor>"

text \<open>An array read \<open>xs[i]\<close>: \<open>undefined\<close> (here \<open>None\<close>) out of range.\<close>

definition index :: "'a list \<Rightarrow> nat \<Rightarrow> 'a option" where
  "index xs i = (if i < length xs then Some (xs ! i) else None)"

text \<open>\<open>Set.prototype.add\<close> on a set kept in insertion order.\<close>

definition set_add :: "int \<Rightarrow> int list \<Rightarrow> int list" where
  "set_add x xs = (if x \<in> set xs then xs else xs @ [x])"

text \<open>\<open>Math.max(...xs)\<close> on a non-empty array.\<close>

definition max_of :: "int list \<Rightarrow> int" where
  "max_of xs = fold max (tl xs) (hd xs)"

text \<open>A string is truthy unless it is absent or empty.\<close>

definition truthy :: "string option \<Rightarrow> bool" where
  "truthy s = (case s of None \<Rightarrow> False | Some t \<Rightarrow> t \<noteq> [])"

section \<open>Voicing builder\<close>

fun adjustNoteForEra :: "options \<Rightarrow> rand \<Rightarrow> nat \<Rightarrow> int \<Rightarrow> int \<times> nat" where
  "adjustNoteForEra opts rs k note =
     (case era opts of
        Some E70s \<Rightarrow> (note - (if rs k < 3 / 10 then 12 else 0), Suc k)
      | Some Mid80s \<Rightarrow> (note + (if rs k < 4 / 10 then 12 else 0), Suc k)
      | _ \<Rightarrow> (note, k))"

fun getEraTensionProbability :: "options \<Rightarrow> real" where
  "getEraTensionProbability opts =
     (case era opts of
        Some E70s \<Rightarrow> 5 / 10
      | Some Early80s \<Rightarrow> 7 / 10
      | Some Mid80s \<Rightarrow> 9 / 10
      | Some Late80s \<Rightarrow> 6 / 10
      | None \<Rightarrow> 7 / 10)"

fun getBassProbability :: "options \<Rightarrow> rand \<Rightarrow> nat \<Rightarrow> int \<times> nat" where
  "getBassProbability opts rs k =
     (case era opts of
        Some E70s \<Rightarrow> (12, k)
      | Some Mid80s \<Rightarrow> (if rs k < 5 / 10 then 24 else 12, Suc k)
      | _ \<Rightarrow> (if rs k < 3 / 10 then 24 else 12, Suc k))"

text \<open>
  The \<open>Mariya Takeuchi\<close> case of \<open>applyArtistModifications\<close> runs \<open>notes.forEach\<close>
  while adding to \<open>notes\<close>: a JavaScript set also visits the elements added during
  the iteration, so the loop walks the insertion-ordered list by position until it
  reaches its (growing) end.
\<close>

function mariya_loop :: "int \<Rightarrow> int list \<Rightarrow> nat \<Rightarrow> int list" where
  "mariya_loop rt notes i =
     (if i < length notes
      then mariya_loop rt
             (if notes ! i - rt > 12 then set_add (notes ! i - 12) notes else notes) (Suc i)
      else notes)"
  by pat_completeness auto

definition visits :: "int \<Rightarrow> int \<Rightarrow> nat" where
  "visits rt n = Suc (nat ((n - rt - 1) div 12))"

lemma visits_step: "n - rt > 12 \<Longrightarrow> visits rt (n - 12) < visits rt n"
proof -
  assume a: "n - rt > 12"
  define d where "d = n - rt - 13"
  have d: "0 \<le> d" "n - rt - 1 = d + 12" "n - 12 - rt - 1 = d"
    using a by (simp_all add: d_def)
  have "(d + 12) div 12 = d div 12 + 1" by simp
  moreover have "0 \<le> d div 12" using d(1) by simp
  ultimately show ?thesis unfolding visits_def d(2,3) by simp
qed

termination mariya_loop
proof (relation "measure (\<lambda>(rt, ns, i). sum_list (map (visits rt) (drop i ns)))")
  show "wf (measure (\<lambda>(rt, ns, i). sum_list (map (visits rt) (drop i ns))))" by simp
next
  fix rt :: int and ns :: "int list" and i :: nat
  assume i: "i < length ns"
  have d: "drop i ns = ns ! i # drop (Suc i) ns"
    using i by (simp add: Cons_nth_drop_Suc)
  have m: "sum_list (map (visits rt) (drop i ns))
           = visits rt (ns ! i) + sum_list (map (visits rt) (drop (Suc i) ns))"
    by (subst d) simp
  show "((rt, if 12 < ns ! i - rt then set_add (ns ! i - 12) ns else ns, Suc i),
         (rt, ns, i)) \<in> measure (\<lambda>(rt, ns, i). sum_list (map (visits rt) (drop i ns)))"
  proof (cases "12 < ns ! i - rt")
    case False
    have "0 < visits rt (ns ! i)" by (simp add: visits_def)
    then show ?thesis using False m by simp
  next
    case True
    have "sum_list (map (visits rt) (drop (Suc i) (set_add (ns ! i - 12) ns)))
          \<le> sum_list (map (visits rt) (drop (Suc i) ns)) + visits rt (ns ! i - 12)"
      using i by (simp add: set_add_def)
    also have "\<dots> < sum_list (map (visits rt) (drop (Suc i) ns)) + visits rt (ns ! i)"
      using visits_step [OF True] by simp
    finally show ?thesis using True m by simp
  qed
qed

declare mariya_loop.simps [simp del]

definition applyArtistModifications :: "options \<Rightarrow> int list \<Rightarrow> int \<Rightarrow> int list" where
  "applyArtistModifications opts notes rt =
     (if artistInfluence opts = Some ''Tatsuro Yamashita'' then set_add (rt + 22) notes
      else if artistInfluence opts = Some ''Mariya Takeuchi'' then mariya_loop rt notes 0
      else if artistInfluence opts = Some ''Toshiki Kadomatsu''
        then set_add (rt + 15) (set_add (rt + 21) notes)
      else notes)"

text \<open>The loop \<open>voicing.intervals.forEach\<close> of \<open>createRichVoicing\<close>.\<close>

fun addIntervals ::
  "options \<Rightarrow> rand \<Rightarrow> int \<Rightarrow> int list \<Rightarrow> int list \<Rightarrow> nat \<Rightarrow> int list \<times> nat" where
  "addIntervals opts rs rt [] notes k = (notes, k)"
| "addIntervals opts rs rt (interval # rest) notes k =
     (case adjustNoteForEra opts rs k (rt + interval) of
        (note, k') \<Rightarrow> addIntervals opts rs rt rest (set_add note notes) k')"

text \<open>
  The loop \<open>for (let i = 0; i < tensionCount; i++)\<close> of \<open>createRichVoicing\<close>, by the
  number of iterations left. The tension list is read at an index below its length
  whenever it is not empty; every catalog voicing has tensions.
\<close>

fun addTensions ::
  "options \<Rightarrow> rand \<Rightarrow> int \<Rightarrow> ExtendedVoicing \<Rightarrow> nat \<Rightarrow> int list \<Rightarrow> nat \<Rightarrow> int list \<times> nat"
  where
  "addTensions opts rs rt v 0 notes k = (notes, k)"
| "addTensions opts rs rt v (Suc n) notes k =
     (if rs k < getEraTensionProbability opts
      then addTensions opts rs rt v n
             (set_add (rt + tensions v ! random_index (rs (Suc k)) (length (tensions v))) notes)
             (Suc (Suc k))
      else addTensions opts rs rt v n notes (Suc k))"

text \<open>
  The body of \<open>createRichVoicing\<close> down to the artist-specific modifications: the
  content of the set \<open>notes\<close>, in insertion order, just before the bass note is added,
  with the tape position reached.
\<close>

definition notesBeforeBass ::
  "options \<Rightarrow> rand \<Rightarrow> nat \<Rightarrow> int \<Rightarrow> ExtendedVoicing \<Rightarrow> real \<Rightarrow> int list \<times> nat" where
  "notesBeforeBass opts rs k rt v cplx =
     (case addIntervals opts rs rt (intervals v) [] k of (notes1, k1) \<Rightarrow>
      (case addTensions opts rs rt v
              (nat \<lfloor>cplx * (if era opts = Some Mid80s then 3 else 2)\<rfloor>) notes1 k1 of
         (notes2, k2) \<Rightarrow>
           (if artistStyle v = artistInfluence opts
            then applyArtistModifications opts notes2 rt else notes2, k2)))"

text \<open>
  The statements \<open>const bassNote = root - this.getBassProbability(); notes.add(bassNote)\<close>:
  the set that is handed to \<open>spreadVoicing\<close>.
\<close>

definition voicingNotes ::
  "options \<Rightarrow> rand \<Rightarrow> nat \<Rightarrow> int \<Rightarrow> ExtendedVoicing \<Rightarrow> real \<Rightarrow> int list \<times> nat" where
  "voicingNotes opts rs k rt v cplx =
     (case notesBeforeBass opts rs k rt v cplx of (notes, k2) \<Rightarrow>
      (case getBassProbability opts rs k2 of (bassOctave, k3) \<Rightarrow>
         (set_add (rt - bassOctave) notes, k3)))"

section \<open>Register spreader\<close>

definition minSpacing :: "options \<Rightarrow> int" where
  "minSpacing opts = (if style opts = Some Ballad then 3 else 2)"

definition maxSpacing :: "options \<Rightarrow> int" where
  "maxSpacing opts = (if style opts = Some Fusion then 24 else 12)"

text \<open>
  The minimum spacing loop mutates \<open>spread\<close> in place from index 1 on, so each note is
  compared with its predecessor as already updated; \<open>spacingFrom\<close> carries that
  predecessor.
\<close>

fun spacingFrom :: "int \<Rightarrow> int \<Rightarrow> int list \<Rightarrow> int list" where
  "spacingFrom m prev [] = []"
| "spacingFrom m prev (x # xs) =
     (if x - prev < m then (x + 12) # spacingFrom m (x + 12) xs
      else x # spacingFrom m x xs)"

fun enforceSpacing :: "int \<Rightarrow> int list \<Rightarrow> int list" where
  "enforceSpacing m [] = []"
| "enforceSpacing m (x # xs) = x # spacingFrom m x xs"

text \<open>The step "Optimize overall range" of \<open>spreadVoicing\<close>, per note.\<close>

definition clampRange :: "int \<Rightarrow> int" where
  "clampRange note = (if note < 36 then note + 12 else if note > 84 then note - 12 else note)"

text \<open>\<open>spread.map\<close> pulling down the notes above \<open>spread[0] + limit\<close>.\<close>

definition pullDown :: "int \<Rightarrow> int list \<Rightarrow> int list" where
  "pullDown limit spread = map (\<lambda>note. if note > hd spread + limit then note - 12 else note) spread"

text \<open>The doubling step: no draw is taken for the condition when the style is fusion.\<close>

definition doubling :: "options \<Rightarrow> rand \<Rightarrow> nat \<Rightarrow> int list \<Rightarrow> int list \<times> nat" where
  "doubling opts rs k spread =
     (if style opts = Some Fusion
      then (spread @ [spread ! random_index (rs k) (length spread) + 12], Suc k)
      else if rs k < 4 / 10
      then (spread @ [spread ! random_index (rs (Suc k)) (length spread) + 12], Suc (Suc k))
      else (spread, Suc k))"

definition eraAdjust :: "options \<Rightarrow> int list \<Rightarrow> int list" where
  "eraAdjust opts spread =
     (if era opts = Some Mid80s then pullDown (maxSpacing opts) spread
      else if era opts = Some E70s then pullDown (maxSpacing opts div 2) spread
      else spread)"

text \<open>\<open>maxSpacing / 1.5\<close> is 8 or 16, written here as \<open>maxSpacing * 2 div 3\<close>.\<close>

definition artistAdjust :: "options \<Rightarrow> rand \<Rightarrow> nat \<Rightarrow> int list \<Rightarrow> int list \<times> nat" where
  "artistAdjust opts rs k spread =
     (if artistInfluence opts = Some ''Tatsuro Yamashita''
      then (if rs k < 5 / 10 then spread @ [max_of spread + 12] else spread, Suc k)
      else if artistInfluence opts = Some ''Mariya Takeuchi''
      then (pullDown (maxSpacing opts * 2 div 3) spread, k)
      else (spread, k))"

definition positionAdjust :: "rand \<Rightarrow> nat \<Rightarrow> int list \<Rightarrow> nat \<Rightarrow> int list \<times> nat" where
  "positionAdjust rs k spread position =
     (if position > 0
      then (if rs k < real position / 8
            then (spread @ [max_of spread + (if rs (Suc k) < 5 / 10 then 12 else 7)], Suc (Suc k))
            else (spread, Suc k))
      else (spread, k))"

text \<open>
  \<open>spreadVoicing\<close> is called with a non-empty \<open>notes\<close> only (the bass note has been
  added); on the empty array the source computes with \<open>undefined\<close>, which the integer
  model does not represent. \<open>beforeClamp\<close> is its body down to the artist-specific
  adjustments: the array \<open>spread\<close> as it stands when the step "Optimize overall range"
  begins, with the tape position reached.
\<close>

definition beforeClamp :: "options \<Rightarrow> rand \<Rightarrow> nat \<Rightarrow> int list \<Rightarrow> int list \<times> nat" where
  "beforeClamp opts rs k notes =
     (case doubling opts rs k (enforceSpacing (minSpacing opts) (sort notes)) of
        (spread2, k2) \<Rightarrow> artistAdjust opts rs k2 (eraAdjust opts spread2))"

definition spreadVoicing ::
  "options \<Rightarrow> rand \<Rightarrow> nat \<Rightarrow> int list \<Rightarrow> nat \<Rightarrow> int list \<times> nat" where
  "spreadVoicing opts rs k notes position =
     (case beforeClamp opts rs k notes of (spread4, k4) \<Rightarrow>
      (case positionAdjust rs k4 (map clampRange spread4) position of (spread6, k6) \<Rightarrow>
         (sort spread6, k6)))"

text \<open>
  \<open>createRichVoicing\<close>. The driver passes \<open>this.voicings[undefined]\<close>, which is
  \<open>undefined\<close>, when no catalog key survives its filter; reading \<open>voicing.intervals\<close>
  then throws a \<open>TypeError\<close>.
\<close>

definition createRichVoicing ::
  "options \<Rightarrow> rand \<Rightarrow> nat \<Rightarrow> int \<Rightarrow> ExtendedVoicing option \<Rightarrow> real \<Rightarrow> nat
     \<Rightarrow> error + int list \<times> nat" where
  "createRichVoicing opts rs k rt voicing cplx position =
     (case voicing of
        None \<Rightarrow> Inl TypeError
      | Some v \<Rightarrow>
          (case voicingNotes opts rs k rt v cplx of
             (notes, k') \<Rightarrow> Inr (spreadVoicing opts rs k' notes position)))"

section \<open>Tension arc and voice leading\<close>

definition phi :: real where
  "phi = (1 + sqrt 5) / 2"

definition peak :: "nat \<Rightarrow> int" where
  "peak len = \<lfloor>real len / phi\<rfloor>"

definition tensionAt :: "nat \<Rightarrow> nat \<Rightarrow> real \<Rightarrow> real" where
  "tensionAt len i r =
     max (3 / 10) (min (9 / 10)
       (5 / 10 + 4 / 10 * (1 - \<bar>real i - real_of_int (peak len)\<bar> / (real len / 2))
          + (r - 5 / 10) * (2 / 10)))"

definition generateTensionArc :: "nat \<Rightarrow> rand \<Rightarrow> nat \<Rightarrow> real list \<times> nat" where
  "generateTensionArc len rs k = (map (\<lambda>i. tensionAt len i (rs (k + i))) [0..<len], k + len)"

text \<open>
  The \<open>reduce\<close> without an initial value: it starts from \<open>prevNotes[0]\<close> and keeps the
  earlier note unless a later one is strictly closer.
\<close>

definition closest :: "int list \<Rightarrow> int \<Rightarrow> int" where
  "closest prevNotes note =
     foldl (\<lambda>prev curr. if \<bar>curr - note\<bar> < \<bar>prev - note\<bar> then curr else prev)
       (hd prevNotes) (tl prevNotes)"

definition smoothNote :: "int list \<Rightarrow> int \<Rightarrow> int" where
  "smoothNote prevNotes note =
     (if \<bar>closest prevNotes note - note\<bar> > 7
      then note + (if closest prevNotes note > note then 12 else - 12)
      else note)"

definition voiceLeading :: "int list \<Rightarrow> int list \<Rightarrow> int list" where
  "voiceLeading prevNotes notes =
     (if length prevNotes > 0 then map (smoothNote prevNotes) notes else notes)"

section \<open>Composition driver\<close>

definition applySwing :: "options \<Rightarrow> rand \<Rightarrow> nat \<Rightarrow> real \<Rightarrow> real \<times> nat" where
  "applySwing opts rs k t =
     (t + (rs k * swingFactor (styleSettings (active_style opts))
            - swingFactor (styleSettings (active_style opts)) / 2), Suc k)"

definition voicingKeys :: "options \<Rightarrow> string list" where
  "voicingKeys opts =
     map fst (filter (\<lambda>(key, v).
        (era opts = None \<or> v_era v = era opts) \<and>
        (\<not> truthy (artistInfluence opts) \<or> artistStyle v = artistInfluence opts)) voicings)"

definition selectVoicing :: "options \<Rightarrow> real \<Rightarrow> ExtendedVoicing option" where
  "selectVoicing opts r =
     (case index (voicingKeys opts) (random_index r (length (voicingKeys opts))) of
        None \<Rightarrow> None
      | Some key \<Rightarrow> map_of voicings key)"

definition validTemplates :: "style \<Rightarrow> ProgressionTemplate list" where
  "validTemplates sty =
     filter (\<lambda>t. p_style t = style_name sty \<or> p_style t = ''standard'') progressionTemplates"

definition selectProgression :: "style \<Rightarrow> real \<Rightarrow> ProgressionTemplate option" where
  "selectProgression sty r =
     index (validTemplates sty) (random_index r (length (validTemplates sty)))"

text \<open>The loop \<open>notes.forEach\<close> that calls \<open>track.addNote\<close>.\<close>

fun addNotes ::
  "StyleSettings \<Rightarrow> rand \<Rightarrow> nat \<Rightarrow> real \<Rightarrow> int list \<Rightarrow> note_event list \<times> nat" where
  "addNotes settings rs k chordStart [] = ([], k)"
| "addNotes settings rs k chordStart (note # rest) =
     (case addNotes settings rs (k + 3) chordStart rest of
        (evs, k') \<Rightarrow>
          (\<lparr>midi = max 0 (min 127 note),
            time = chordStart + (rs (k + 1) - 5 / 10) * (1 / 100),
            duration = 195 / 100 + (rs (k + 2) - 5 / 10) * (1 / 10),
            velocity = (fst (velocityRange settings)
                          + rs k * (snd (velocityRange settings) - fst (velocityRange settings)))
                       / 127\<rparr> # evs, k'))"

text \<open>
  The body of the loop \<open>for (let i = 0; i < length; i++)\<close> of \<open>generateMidiFile\<close>.
  Every catalog progression has roots, and the tension arc has a value for each of the
  8 steps, so both array reads are in range.
\<close>

definition progressionStep ::
  "options \<Rightarrow> rand \<Rightarrow> ProgressionTemplate \<Rightarrow> real list \<Rightarrow> StyleSettings
     \<Rightarrow> nat \<Rightarrow> real \<Rightarrow> int list \<Rightarrow> nat \<Rightarrow> error + chord_trace \<times> nat" where
  "progressionStep opts rs progression tensionArc settings i t prevNotes k =
     (case createRichVoicing opts rs (Suc k)
             (60 + roots progression ! (i mod length (roots progression)))
             (selectVoicing opts (rs k))
             (tensionArc ! i *
                (if p_complexity progression = 0 then 1 else p_complexity progression))
             i of
        Inl e \<Rightarrow> Inl e
      | Inr (notes, k1) \<Rightarrow>
          (case applySwing opts rs k1 t of (chordStart, k2) \<Rightarrow>
           (case addNotes settings rs k2 chordStart (voiceLeading prevNotes notes) of
              (evs, k3) \<Rightarrow>
                Inr (\<lparr>drawn = k, built = notes, smoothed = voiceLeading prevNotes notes,
                      events = evs\<rparr>, k3))))"

text \<open>
  The loop itself, by the number \<open>n\<close> of iterations left: \<open>time\<close> advances by 2, and
  the smoothed notes of one iteration are the \<open>prevNotes\<close> of the next.
\<close>

fun progressionLoop ::
  "options \<Rightarrow> rand \<Rightarrow> ProgressionTemplate \<Rightarrow> real list \<Rightarrow> StyleSettings
     \<Rightarrow> nat \<Rightarrow> nat \<Rightarrow> real \<Rightarrow> int list \<Rightarrow> chord_trace list \<Rightarrow> nat
     \<Rightarrow> error + chord_trace list \<times> nat" where
  "progressionLoop opts rs progression tensionArc settings 0 i t prevNotes track k =
     Inr (track, k)"
| "progressionLoop opts rs progression tensionArc settings (Suc n) i t prevNotes track k =
     (case progressionStep opts rs progression tensionArc settings i t prevNotes k of
        Inl e \<Rightarrow> Inl e
      | Inr (c, k3) \<Rightarrow>
          progressionLoop opts rs progression tensionArc settings n (Suc i) (t + 2)
            (smoothed c) (track @ [c]) k3)"

subsection \<open>Names\<close>

text \<open>
  A template literal prints an integral number in decimal. \<open>decimal_digits\<close> lists the
  digits of a natural number, most significant first.
\<close>

function decimal_digits :: "nat \<Rightarrow> nat list" where
  "decimal_digits n = (if n < 10 then [n] else decimal_digits (n div 10) @ [n mod 10])"
  by pat_completeness auto
termination
  by (relation "measure id") auto

declare decimal_digits.simps [simp del]

definition digit_char :: "nat \<Rightarrow> char" where
  "digit_char d = ''0123456789'' ! d"

definition nat_to_string :: "nat \<Rightarrow> string" where
  "nat_to_string n = map digit_char (decimal_digits n)"

definition number_to_string :: "int \<Rightarrow> string" where
  "number_to_string i =
     (if 0 \<le> i then nat_to_string (nat i) else CHR ''-'' # nat_to_string (nat (- i)))"

text \<open>\<open>Math.round\<close>: to the nearest integer, halves upwards.\<close>

definition math_round :: "real \<Rightarrow> int" where
  "math_round x = \<lfloor>x + 1 / 2\<rfloor>"

definition piece_name :: "options \<Rightarrow> nat \<Rightarrow> string" where
  "piece_name opts now =
     ''citypop-'' @ (case era opts of None \<Rightarrow> ''standard'' | Some e \<Rightarrow> era_name e)
       @ ''-'' @ (case style opts of None \<Rightarrow> ''uptempo'' | Some s \<Rightarrow> style_name s)
       @ ''-'' @ nat_to_string now"

subsection \<open>The two public operations\<close>

definition run_tempo :: "options \<Rightarrow> rand \<Rightarrow> real" where
  "run_tempo opts rs =
     fst (tempoRange (styleSettings (active_style opts)))
       + rs 0 * (snd (tempoRange (styleSettings (active_style opts)))
                  - fst (tempoRange (styleSettings (active_style opts))))"

text \<open>
  \<open>generateMidiFile\<close> down to the end of its loop: the tempo draw, the progression
  draw, the tension arc and the 8 iterations. A progression read outside the filtered
  templates is \<open>undefined\<close>, and \<open>progression.roots\<close> then throws.
\<close>

definition generateTrack :: "options \<Rightarrow> rand \<Rightarrow> error + chord_trace list" where
  "generateTrack opts rs =
     (case generateTensionArc 8 rs 2 of (tensionArc, k) \<Rightarrow>
      (case selectProgression (active_style opts) (rs 1) of
         None \<Rightarrow> Inl TypeError
       | Some progression \<Rightarrow>
           (case progressionLoop opts rs progression tensionArc
                   (styleSettings (active_style opts)) 8 0 0 [] [] k of
              Inl e \<Rightarrow> Inl e
            | Inr (track, k') \<Rightarrow> Inr track)))"

text \<open>
  The return statement: the encoder gets the tempo of the header and the notes of the
  track in the order in which they were added; what it throws leaves the function.
\<close>

definition generateMidiFile :: "encoder \<Rightarrow> options \<Rightarrow> rand \<Rightarrow> nat \<Rightarrow> error + piece" where
  "generateMidiFile toArray opts rs now =
     (case generateTrack opts rs of
        Inl e \<Rightarrow> Inl e
      | Inr track \<Rightarrow>
          (case toArray (run_tempo opts rs) (concat (map events track)) of
             Inl e \<Rightarrow> Inl e
           | Inr bytes \<Rightarrow>
               Inr \<lparr>data = bytes, tempo = run_tempo opts rs, name = piece_name opts now\<rparr>))"

text \<open>
  \<open>generateAndDownloadMidi\<close>: any exception of the generation is caught and replaced
  by \<open>new Error('Failed to generate MIDI file')\<close>. The blob URL is opaque; the
  descriptor carries the bytes the URL stands for.
\<close>

definition generateAndDownloadMidi ::
  "encoder \<Rightarrow> options \<Rightarrow> rand \<Rightarrow> nat \<Rightarrow> error + descriptor" where
  "generateAndDownloadMidi toArray opts rs now =
     (case generateMidiFile toArray opts rs now of
        Inl e \<Rightarrow> Inl GenerationFailed
      | Inr p \<Rightarrow>
          Inr \<lparr>url = data p,
               filename = name p @ ''-'' @ number_to_string (math_round (tempo p)) @ ''bpm.mid''\<rparr>)"

text \<open>
  One encoder for the examples: it refuses a note that starts before time 0 and
  otherwise returns the pitches.
\<close>

definition sample_encoder :: encoder where
  "sample_encoder bpm evs =
     (if list_ex (\<lambda>ev. time ev < 0) evs then Inl EncoderError
      else Inr (map (\<lambda>ev. nat (midi ev)) evs))"

subsection \<open>Well-formed chords\<close>

text \<open>
  What the properties below say of one emitted chord: it has a note, every pitch handed
  to the encoder lies in \<open>[0, 127]\<close>, and every velocity, before the division by 127,
  lies in the velocity range of the settings.
\<close>

definition chord_ok :: "StyleSettings \<Rightarrow> note_event list \<Rightarrow> bool" where
  "chord_ok settings chord =
     (chord \<noteq> [] \<and>
      list_all (\<lambda>ev. 0 \<le> midi ev \<and> midi ev \<le> 127 \<and>
                fst (velocityRange settings) \<le> velocity ev * 127 \<and>
                velocity ev * 127 \<le> snd (velocityRange settings)) chord)"

subsection \<open>The closest previous note\<close>

text \<open>
  \<open>first_closest ps n c\<close>: \<open>c\<close> is the first note of \<open>ps\<close>, in iteration order, at
  minimal absolute distance from \<open>n\<close>.
\<close>

definition first_closest :: "int list \<Rightarrow> int \<Rightarrow> int \<Rightarrow> bool" where
  "first_closest ps n c =
     (\<exists>i<length ps. c = ps ! i
        \<and> (\<forall>j<length ps. \<bar>ps ! i - n\<bar> \<le> \<bar>ps ! j - n\<bar>)
        \<and> (\<forall>j<i. \<bar>ps ! i - n\<bar> < \<bar>ps ! j - n\<bar>))"

subsection \<open>Chains of iterations\<close>

text \<open>
  \<open>chained i t prevNotes k cs\<close>: the records \<open>cs\<close> are what consecutive iterations
  leave, starting at step \<open>i\<close>, time \<open>t\<close>, previous notes \<open>prevNotes\<close> and tape position
  \<open>k\<close>.
\<close>

fun chained ::
  "options \<Rightarrow> rand \<Rightarrow> ProgressionTemplate \<Rightarrow> real list \<Rightarrow> StyleSettings
     \<Rightarrow> nat \<Rightarrow> real \<Rightarrow> int list \<Rightarrow> nat \<Rightarrow> chord_trace list \<Rightarrow> bool" where
  "chained opts rs progression tensionArc settings i t prevNotes k [] = True"
| "chained opts rs progression tensionArc settings i t prevNotes k (c # cs) =
     (case progressionStep opts rs progression tensionArc settings i t prevNotes k of
        Inl e \<Rightarrow> False
      | Inr (c', k') \<Rightarrow>
          c' = c \<and> chained opts rs progression tensionArc settings (Suc i) (t + 2)
                      (smoothed c) k' cs)"

section \<open>The earlier generator\<close>

text \<open>
  The file \<open>sailormoongene.ts\<close> holds an earlier \<open>EnhancedCityPopGenerator\<close>, without
  generation options, and exports a function \<open>generateAndDownloadMidi\<close> of its own. Its
  definitions carry the suffix \<open>_gene\<close>. The functions \<open>generateTensionArc\<close>, the
  voice-leading block, the spacing loop and the range clamp read the same in both files
  and are shared.
\<close>

record ExtendedVoicing_gene =
  g_intervals :: "int list"
  g_tensions :: "int list"
  g_alterations :: "int list"
  g_category :: category
  g_weight :: real

record ProgressionTemplate_gene =
  g_roots :: "int list"
  g_weights :: "real list"

definition voicings_gene :: "(string \<times> ExtendedVoicing_gene) list" where
  "voicings_gene =
    [(''maj9'', \<lparr>g_intervals = [0, 4, 7, 11, 14], g_tensions = [9, 13],
        g_alterations = [8, 15], g_category = Citypop, g_weight = 1\<rparr>),
     (''maj7_13'', \<lparr>g_intervals = [0, 4, 7, 11, 21], g_tensions = [9, 13],
        g_alterations = [8, 15], g_category = Citypop, g_weight = 8 / 10\<rparr>),
     (''min11'', \<lparr>g_intervals = [0, 3, 7, 10, 14, 17], g_tensions = [15, 22],
        g_alterations = [8], g_category = Citypop, g_weight = 7 / 10\<rparr>),
     (''maj9_13'', \<lparr>g_intervals = [0, 4, 7, 11, 14, 21], g_tensions = [13, 15],
        g_alterations = [8, 22], g_category = Jazz, g_weight = 9 / 10\<rparr>),
     (''dom7alt'', \<lparr>g_intervals = [0, 4, 7, 10, 15], g_tensions = [8, 14],
        g_alterations = [9, 13], g_category = FusionCat, g_weight = 5 / 10\<rparr>),
     (''min9_13'', \<lparr>g_intervals = [0, 3, 7, 10, 14, 21], g_tensions = [15, 22],
        g_alterations = [8], g_category = Jazz, g_weight = 6 / 10\<rparr>)]"

definition progressionTemplates_gene :: "ProgressionTemplate_gene list" where
  "progressionTemplates_gene =
    [\<lparr>g_roots = [0, 5, 3, 4], g_weights = [1, 8 / 10, 7 / 10, 9 / 10]\<rparr>,
     \<lparr>g_roots = [0, 5, 1, 4], g_weights = [1, 7 / 10, 8 / 10, 9 / 10]\<rparr>,
     \<lparr>g_roots = [3, 4, 0, 5], g_weights = [8 / 10, 9 / 10, 1, 7 / 10]\<rparr>,
     \<lparr>g_roots = [0, 2, 3, 4], g_weights = [1, 6 / 10, 8 / 10, 9 / 10]\<rparr>]"

text \<open>
  The tension loop of the earlier \<open>createRichVoicing\<close>, by the number of iterations
  left: a draw against the complexity and, when it is below, a draw for the tension.
\<close>

fun addTensions_gene ::
  "rand \<Rightarrow> int \<Rightarrow> ExtendedVoicing_gene \<Rightarrow> real \<Rightarrow> nat \<Rightarrow> int list \<Rightarrow> nat \<Rightarrow> int list \<times> nat"
  where
  "addTensions_gene rs rt v cplx 0 notes k = (notes, k)"
| "addTensions_gene rs rt v cplx (Suc n) notes k =
     (if rs k < cplx
      then addTensions_gene rs rt v cplx n
             (set_add (rt + g_tensions v ! random_index (rs (Suc k)) (length (g_tensions v)))
                notes)
             (Suc (Suc k))
      else addTensions_gene rs rt v cplx n notes (Suc k))"

text \<open>The statement \<open>if (Math.random() < complexity * 0.7)\<close> that adds one alteration.\<close>

definition addAlteration_gene ::
  "rand \<Rightarrow> int \<Rightarrow> ExtendedVoicing_gene \<Rightarrow> real \<Rightarrow> int list \<Rightarrow> nat \<Rightarrow> int list \<times> nat" where
  "addAlteration_gene rs rt v cplx notes k =
     (if rs k < cplx * (7 / 10)
      then (set_add
              (rt + g_alterations v ! random_index (rs (Suc k)) (length (g_alterations v)))
              notes, Suc (Suc k))
      else (notes, Suc k))"

text \<open>
  The earlier \<open>spreadVoicing\<close>: sort, spacing loop with the threshold 2, a doubling with
  probability \<open>0.4\<close>, range clamp, sort. It does not read \<open>position\<close>.
\<close>

definition spreadVoicing_gene :: "rand \<Rightarrow> nat \<Rightarrow> int list \<Rightarrow> nat \<Rightarrow> int list \<times> nat" where
  "spreadVoicing_gene rs k notes position =
     (if rs k < 4 / 10
      then (sort (map clampRange
                    (enforceSpacing 2 (sort notes) @
                       [enforceSpacing 2 (sort notes)
                          ! random_index (rs (Suc k)) (length (enforceSpacing 2 (sort notes)))
                        + 12])),
            Suc (Suc k))
      else (sort (map clampRange (enforceSpacing 2 (sort notes))), Suc k))"

definition createRichVoicing_gene ::
  "rand \<Rightarrow> nat \<Rightarrow> int \<Rightarrow> ExtendedVoicing_gene option \<Rightarrow> real \<Rightarrow> nat
     \<Rightarrow> error + int list \<times> nat" where
  "createRichVoicing_gene rs k rt voicing cplx position =
     (case voicing of
        None \<Rightarrow> Inl TypeError
      | Some v \<Rightarrow>
          (case addTensions_gene rs rt v cplx (nat \<lfloor>cplx * (25 / 10)\<rfloor>)
                  (foldl (\<lambda>notes interval. set_add (rt + interval) notes) [] (g_intervals v))
                  k of
             (notes1, k1) \<Rightarrow>
               (case addAlteration_gene rs rt v cplx notes1 k1 of
                  (notes2, k2) \<Rightarrow>
                    Inr (spreadVoicing_gene rs (Suc k2)
                           (set_add (rt - (if rs k2 < 3 / 10 then 24 else 12)) notes2)
                           position))))"

text \<open>\<open>this.voicings[voicingKeys[Math.floor(Math.random() * voicingKeys.length)]]\<close>.\<close>

definition selectVoicing_gene :: "real \<Rightarrow> ExtendedVoicing_gene option" where
  "selectVoicing_gene r =
     (case index (map fst voicings_gene) (random_index r (length (map fst voicings_gene))) of
        None \<Rightarrow> None
      | Some key \<Rightarrow> map_of voicings_gene key)"

fun addNotes_gene :: "rand \<Rightarrow> nat \<Rightarrow> real \<Rightarrow> int list \<Rightarrow> note_event list \<times> nat" where
  "addNotes_gene rs k chordStart [] = ([], k)"
| "addNotes_gene rs k chordStart (note # rest) =
     (case addNotes_gene rs (k + 3) chordStart rest of
        (evs, k') \<Rightarrow>
          (\<lparr>midi = max 0 (min 127 note),
            time = chordStart + (rs (k + 1) - 5 / 10) * (1 / 100),
            duration = 195 / 100 + (rs (k + 2) - 5 / 10) * (1 / 10),
            velocity = min 100 (max 60 (85 + (rs k - 5 / 10) * 20)) / 127\<rparr> # evs, k'))"

text \<open>
  The loop of the earlier \<open>generateMidiFile\<close>, by the number \<open>n\<close> of iterations left;
  \<open>track\<close> collects the note events in the order of \<open>track.addNote\<close>.
\<close>

fun progressionLoop_gene ::
  "rand \<Rightarrow> ProgressionTemplate_gene \<Rightarrow> real list \<Rightarrow> nat \<Rightarrow> nat \<Rightarrow> real \<Rightarrow> int list
     \<Rightarrow> note_event list \<Rightarrow> nat \<Rightarrow> error + note_event list \<times> nat" where
  "progressionLoop_gene rs progression tensionArc 0 i t prevNotes track k = Inr (track, k)"
| "progressionLoop_gene rs progression tensionArc (Suc n) i t prevNotes track k =
     (case createRichVoicing_gene rs (Suc k)
             (60 + g_roots progression ! (i mod length (g_roots progression)))
             (selectVoicing_gene (rs k)) (tensionArc ! i) i of
        Inl e \<Rightarrow> Inl e
      | Inr (notes, k1) \<Rightarrow>
          (case addNotes_gene rs (Suc k1) (t + (rs k1 - 5 / 10) * (2 / 100))
                  (voiceLeading prevNotes notes) of
             (evs, k3) \<Rightarrow>
               progressionLoop_gene rs progression tensionArc n (Suc i) (t + 2)
                 (voiceLeading prevNotes notes) (track @ evs) k3))"

definition generateTrack_gene :: "rand \<Rightarrow> error + note_event list" where
  "generateTrack_gene rs =
     (case index progressionTemplates_gene
             (random_index (rs 1) (length progressionTemplates_gene)) of
        None \<Rightarrow> Inl TypeError
      | Some progression \<Rightarrow>
          (case generateTensionArc 8 rs 2 of (tensionArc, k) \<Rightarrow>
           (case progressionLoop_gene rs progression tensionArc 8 0 0 [] [] k of
              Inl e \<Rightarrow> Inl e
            | Inr (track, k') \<Rightarrow> Inr track)))"

definition generateMidiFile_gene :: "encoder \<Rightarrow> rand \<Rightarrow> nat \<Rightarrow> error + piece" where
  "generateMidiFile_gene toArray rs now =
     (case generateTrack_gene rs of
        Inl e \<Rightarrow> Inl e
      | Inr track \<Rightarrow>
          (case toArray (72 + rs 0 * 30) track of
             Inl e \<Rightarrow> Inl e
           | Inr bytes \<Rightarrow>
               Inr \<lparr>data = bytes, tempo = 72 + rs 0 * 30,
                    name = ''citypop-progression-'' @ nat_to_string now\<rparr>))"

definition generateAndDownloadMidi_gene :: "encoder \<Rightarrow> rand \<Rightarrow> nat \<Rightarrow> error + descriptor" where
  "generateAndDownloadMidi_gene toArray rs now =
     (case generateMidiFile_gene toArray rs now of
        Inl e \<Rightarrow> Inl GenerationFailed
      | Inr p \<Rightarrow>
          Inr \<lparr>url = data p,
               filename = name p @ ''-'' @ number_to_string (math_round (tempo p)) @ ''bpm.mid''\<rparr>)"

section \<open>Basic facts\<close>

lemma random_index_less: "0 \<le> r \<Longrightarrow> r < 1 \<Longrightarrow> 0 < n \<Longrightarrow> random_index r n < n"
proof -
  assume r: "0 \<le> r" "r < 1" and n: "0 < n"
  have "r * real n < real n" using r n by simp
  then have "\<lfloor>r * real n\<rfloor> < int n" by (simp add: floor_less_iff)
  moreover have "0 \<le> \<lfloor>r * real n\<rfloor>" using r by simp
  ultimately show ?thesis unfolding random_index_def by linarith
qed

lemma index_Nil: "index [] i = None"
  by (simp add: index_def)

lemma selectVoicing_empty: "voicingKeys opts = [] \<Longrightarrow> selectVoicing opts r = None"
  by (simp add: selectVoicing_def index_Nil)

lemma voicingKeys_subset: "set (voicingKeys opts) \<subseteq> fst ` set voicings"
  unfolding voicingKeys_def by auto

lemma selectVoicing_some:
  assumes "voicingKeys opts \<noteq> []" "0 \<le> r" "r < 1"
  shows "\<exists>v. selectVoicing opts r = Some v"
proof -
  let ?i = "random_index r (length (voicingKeys opts))"
  have i: "?i < length (voicingKeys opts)"
    using assms by (intro random_index_less) simp_all
  then have "voicingKeys opts ! ?i \<in> fst ` set voicings"
    using voicingKeys_subset nth_mem by blast
  then obtain v where "map_of voicings (voicingKeys opts ! ?i) = Some v"
    by (metis map_of_eq_None_iff not_Some_eq)
  then show ?thesis using i by (simp add: selectVoicing_def index_def)
qed

lemma progressionStep_fail:
  "selectVoicing opts (rs k) = None \<Longrightarrow>
   progressionStep opts rs progression tensionArc settings i t prevNotes k = Inl TypeError"
  by (simp add: progressionStep_def createRichVoicing_def)

lemma progressionLoop_fail:
  "selectVoicing opts (rs k) = None \<Longrightarrow>
   progressionLoop opts rs progression tensionArc settings (Suc n) i t prevNotes track k
     = Inl TypeError"
  by (simp add: progressionStep_fail)

lemma generateTrack_empty:
  assumes "voicingKeys opts = []"
  shows "generateTrack opts rs = Inl TypeError"
proof -
  have e: "\<And>r. selectVoicing opts r = None" using assms by (rule selectVoicing_empty)
  have "\<And>progression tensionArc k.
          progressionLoop opts rs progression tensionArc (styleSettings (active_style opts))
            8 0 0 [] [] k = Inl TypeError"
    using progressionLoop_fail [OF e, where n = 7] by simp
  then show ?thesis
    unfolding generateTrack_def by (simp split: prod.splits option.splits)
qed

lemma generateMidiFile_empty:
  "voicingKeys opts = [] \<Longrightarrow> generateMidiFile toArray opts rs now = Inl TypeError"
  by (simp add: generateMidiFile_def generateTrack_empty)

lemma addNotes_length: "length (fst (addNotes settings rs k chordStart ns)) = length ns"
  by (induction ns arbitrary: k) (simp_all add: case_prod_unfold)

lemma addNotes_midi:
  "map midi (fst (addNotes settings rs k chordStart ns)) = map (\<lambda>n. max 0 (min 127 n)) ns"
  by (induction ns arbitrary: k) (simp_all add: case_prod_unfold)

lemma addNotes_velocity:
  assumes "valid_rand rs" "fst (velocityRange settings) \<le> snd (velocityRange settings)"
    "ev \<in> set (fst (addNotes settings rs k chordStart ns))"
  shows "fst (velocityRange settings) \<le> velocity ev * 127 \<and>
         velocity ev * 127 \<le> snd (velocityRange settings)"
  using assms(3)
proof (induction ns arbitrary: k)
  case Nil
  then show ?case by simp
next
  case (Cons n0 rest)
  obtain evs k' where a: "addNotes settings rs (k + 3) chordStart rest = (evs, k')"
    by (cases "addNotes settings rs (k + 3) chordStart rest")
  define lo hi where "lo = fst (velocityRange settings)" and "hi = snd (velocityRange settings)"
  have r: "0 \<le> rs k" "rs k < 1" using assms(1) by (simp_all add: valid_rand_def)
  have d: "0 \<le> hi - lo" using assms(2) by (simp add: lo_def hi_def)
  have "0 \<le> rs k * (hi - lo)" using r d by simp
  moreover have "rs k * (hi - lo) \<le> 1 * (hi - lo)" using r d by (intro mult_right_mono) simp_all
  ultimately have b: "lo \<le> lo + rs k * (hi - lo)" "lo + rs k * (hi - lo) \<le> hi" by simp_all
  from Cons.prems a have "velocity ev * 127 = lo + rs k * (hi - lo) \<or> ev \<in> set evs"
    by (auto simp: lo_def hi_def)
  then show ?case
  proof
    assume "velocity ev * 127 = lo + rs k * (hi - lo)"
    then show ?thesis using b by (simp add: lo_def hi_def)
  next
    assume "ev \<in> set evs"
    then have "ev \<in> set (fst (addNotes settings rs (k + 3) chordStart rest))" using a by simp
    then show ?thesis by (rule Cons.IH)
  qed
qed

lemma spacingFrom_length: "length (spacingFrom m prev xs) = length xs"
  by (induction xs arbitrary: prev) simp_all

lemma enforceSpacing_length: "length (enforceSpacing m xs) = length xs"
  by (cases xs) (simp_all add: spacingFrom_length)

lemma doubling_length: "length spread \<le> length (fst (doubling opts rs k spread))"
  by (simp add: doubling_def)

lemma eraAdjust_length: "length (eraAdjust opts spread) = length spread"
  by (simp add: eraAdjust_def pullDown_def)

lemma artistAdjust_length: "length spread \<le> length (fst (artistAdjust opts rs k spread))"
  by (simp add: artistAdjust_def pullDown_def)

lemma positionAdjust_length: "length spread \<le> length (fst (positionAdjust rs k spread position))"
  by (simp add: positionAdjust_def)

lemma beforeClamp_length: "length ns \<le> length (fst (beforeClamp opts rs k ns))"
proof -
  let ?s1 = "enforceSpacing (minSpacing opts) (sort ns)"
  let ?d = "doubling opts rs k ?s1"
  have "length ns = length ?s1" by (simp add: enforceSpacing_length)
  also have "\<dots> \<le> length (fst ?d)" by (rule doubling_length)
  also have "\<dots> = length (eraAdjust opts (fst ?d))" by (simp add: eraAdjust_length)
  also have "\<dots> \<le> length (fst (artistAdjust opts rs (snd ?d) (eraAdjust opts (fst ?d))))"
    by (rule artistAdjust_length)
  also have "\<dots> = length (fst (beforeClamp opts rs k ns))"
    by (simp add: beforeClamp_def case_prod_unfold)
  finally show ?thesis .
qed

lemma spreadVoicing_length: "length ns \<le> length (fst (spreadVoicing opts rs k ns position))"
proof -
  let ?b = "beforeClamp opts rs k ns"
  let ?p = "positionAdjust rs (snd ?b) (map clampRange (fst ?b)) position"
  have "length ns \<le> length (map clampRange (fst ?b))" using beforeClamp_length by simp
  also have "\<dots> \<le> length (fst ?p)" by (rule positionAdjust_length)
  also have "\<dots> = length (fst (spreadVoicing opts rs k ns position))"
    by (simp add: spreadVoicing_def case_prod_unfold)
  finally show ?thesis .
qed

lemma set_add_nonempty: "set_add x xs \<noteq> []"
  by (auto simp: set_add_def)

lemma set_add_mem: "x \<in> set (set_add x xs)"
  by (simp add: set_add_def)

lemma voicingNotes_nonempty: "fst (voicingNotes opts rs k rt v cplx) \<noteq> []"
  by (simp add: voicingNotes_def case_prod_unfold set_add_nonempty
      del: getBassProbability.simps)

lemma createRichVoicing_some:
  "\<exists>ns k'. createRichVoicing opts rs k rt (Some v) cplx position = Inr (ns, k') \<and> ns \<noteq> []"
proof -
  obtain ns0 k0 where a: "voicingNotes opts rs k rt v cplx = (ns0, k0)"
    by (cases "voicingNotes opts rs k rt v cplx")
  obtain ns k' where b: "spreadVoicing opts rs k0 ns0 position = (ns, k')"
    by (cases "spreadVoicing opts rs k0 ns0 position")
  have "ns0 \<noteq> []" using voicingNotes_nonempty [of opts rs k rt v cplx] a by simp
  moreover have "length ns0 \<le> length ns"
    using spreadVoicing_length [of ns0 opts rs k0 position] b by simp
  ultimately have "ns \<noteq> []" by auto
  then show ?thesis using a b by (simp add: createRichVoicing_def)
qed

lemma voiceLeading_length: "length (voiceLeading prevNotes ns) = length ns"
  by (simp add: voiceLeading_def)

lemma addNotes_chord_ok:
  assumes "valid_rand rs" "fst (velocityRange settings) \<le> snd (velocityRange settings)" "ns \<noteq> []"
  shows "chord_ok settings (fst (addNotes settings rs k chordStart ns))"
proof -
  let ?c = "fst (addNotes settings rs k chordStart ns)"
  have "?c \<noteq> []" using addNotes_length [of settings rs k chordStart ns] assms(3) by auto
  moreover have "0 \<le> midi ev \<and> midi ev \<le> 127" if "ev \<in> set ?c" for ev
  proof -
    have "midi ev \<in> set (map midi ?c)" using that by simp
    then show ?thesis unfolding addNotes_midi by auto
  qed
  ultimately show ?thesis
    using addNotes_velocity [OF assms(1,2)] by (simp add: chord_ok_def list_all_iff)
qed

lemma progressionStep_total:
  assumes "valid_rand rs" "voicingKeys opts \<noteq> []"
    "fst (velocityRange settings) \<le> snd (velocityRange settings)"
  shows "\<exists>c k'. progressionStep opts rs progression tensionArc settings i t prevNotes k
        = Inr (c, k') \<and> chord_ok settings (events c)"
proof -
  have "0 \<le> rs k" "rs k < 1" using assms(1) by (simp_all add: valid_rand_def)
  then obtain v where v: "selectVoicing opts (rs k) = Some v"
    using selectVoicing_some [OF assms(2)] by blast
  let ?rt = "60 + roots progression ! (i mod length (roots progression))"
  let ?c = "tensionArc ! i * (if p_complexity progression = 0 then 1 else p_complexity progression)"
  obtain ns k1 where c: "createRichVoicing opts rs (Suc k) ?rt (Some v) ?c i = Inr (ns, k1)"
    and ne: "ns \<noteq> []"
    using createRichVoicing_some by blast
  obtain chordStart k2 where s: "applySwing opts rs k1 t = (chordStart, k2)"
    by (cases "applySwing opts rs k1 t")
  let ?ns = "voiceLeading prevNotes ns"
  obtain evs k3 where a: "addNotes settings rs k2 chordStart ?ns = (evs, k3)"
    by (cases "addNotes settings rs k2 chordStart ?ns")
  have "?ns \<noteq> []" using ne voiceLeading_length [of prevNotes ns] by auto
  then have "chord_ok settings evs"
    using addNotes_chord_ok [OF assms(1,3), of ?ns k2 chordStart] a by simp
  then show ?thesis using v c s a by (simp add: progressionStep_def)
qed

lemma progressionLoop_total:
  assumes "valid_rand rs" "voicingKeys opts \<noteq> []"
    "fst (velocityRange settings) \<le> snd (velocityRange settings)"
  shows "list_all (\<lambda>c. chord_ok settings (events c)) track \<Longrightarrow>
    \<exists>track' k'. progressionLoop opts rs progression tensionArc settings n i t prevNotes track k
        = Inr (track', k')
      \<and> length track' = length track + n
      \<and> list_all (\<lambda>c. chord_ok settings (events c)) track'"
proof (induction n arbitrary: i t prevNotes track k)
  case 0
  then show ?case by simp
next
  case (Suc n)
  obtain c k3 where s:
    "progressionStep opts rs progression tensionArc settings i t prevNotes k = Inr (c, k3)"
    "chord_ok settings (events c)"
    using progressionStep_total [OF assms] by blast
  then have "list_all (\<lambda>c. chord_ok settings (events c)) (track @ [c])"
    using Suc.prems by simp
  from Suc.IH [OF this, of "Suc i" "t + 2" "smoothed c" k3]
  show ?case using s by simp
qed

lemma validTemplates_cases:
  "validTemplates Uptempo = [progressionTemplates ! 0]"
  "validTemplates Ballad = [progressionTemplates ! 0, progressionTemplates ! 3]"
  "validTemplates Fusion = [progressionTemplates ! 0, progressionTemplates ! 2]"
  by (simp_all add: validTemplates_def progressionTemplates_def)

lemma validTemplates_nonempty: "validTemplates sty \<noteq> []"
  by (cases sty) (simp_all add: validTemplates_cases)

lemma selectProgression_some:
  assumes "0 \<le> r" "r < 1"
  shows "\<exists>p. selectProgression sty r = Some p"
proof -
  have "0 < length (validTemplates sty)" using validTemplates_nonempty [of sty] by simp
  then have "random_index r (length (validTemplates sty)) < length (validTemplates sty)"
    using assms by (intro random_index_less)
  then show ?thesis by (simp add: selectProgression_def index_def)
qed

lemma velocityRange_ordered:
  "fst (velocityRange (styleSettings sty)) \<le> snd (velocityRange (styleSettings sty))"
  by (cases sty) simp_all

lemma generateTrack_total:
  assumes "valid_rand rs" "voicingKeys opts \<noteq> []"
  shows "\<exists>track. generateTrack opts rs = Inr track \<and> length track = 8
         \<and> list_all (\<lambda>c. chord_ok (styleSettings (active_style opts)) (events c)) track"
proof -
  let ?sty = "active_style opts"
  obtain arc k where a: "generateTensionArc 8 rs 2 = (arc, k)"
    by (cases "generateTensionArc 8 rs 2")
  have "0 \<le> rs 1" "rs 1 < 1" using assms(1) by (simp_all add: valid_rand_def)
  then obtain p where p: "selectProgression ?sty (rs 1) = Some p"
    using selectProgression_some by blast
  have "list_all (\<lambda>c. chord_ok (styleSettings ?sty) (events c)) []" by simp
  from progressionLoop_total [OF assms velocityRange_ordered this,
      of p arc 8 0 0 "[]" k]
  obtain track k' where
    "progressionLoop opts rs p arc (styleSettings ?sty) 8 0 0 [] [] k = Inr (track, k')"
    "length track = 8" "list_all (\<lambda>c. chord_ok (styleSettings ?sty) (events c)) track"
    by auto
  then show ?thesis using a p by (simp add: generateTrack_def)
qed

lemma voicingKeys_late80s: "voicingKeys (no_options\<lparr>era := Some Late80s\<rparr>) = []"
  by (simp add: voicingKeys_def voicings_def no_options_def)

lemma voicingKeys_70s: "voicingKeys (no_options\<lparr>era := Some E70s\<rparr>) = []"
  by (simp add: voicingKeys_def voicings_def no_options_def)

lemma voicingKeys_no_options:
  "voicingKeys no_options = [''maj9'', ''maj7_13'', ''min11'', ''maj9_13'', ''maj7_9_13'',
     ''kadomatsu_fusion'', ''anri_pop'']"
  by (simp add: voicingKeys_def voicings_def no_options_def truthy_def)

lemma voicingKeys_style [simp]: "voicingKeys (opts\<lparr>style := s\<rparr>) = voicingKeys opts"
  by (simp add: voicingKeys_def)

lemma valid_rand_const: "valid_rand (\<lambda>_. 0)"
  by (simp add: valid_rand_def)

lemma generateAndDownloadMidi_Inl:
  "generateMidiFile toArray opts rs now = Inl e \<Longrightarrow>
   generateAndDownloadMidi toArray opts rs now = Inl GenerationFailed"
  by (simp add: generateAndDownloadMidi_def)

subsection \<open>The iterations of a completed loop\<close>

lemma progressionStep_Inr:
  assumes "progressionStep opts rs progression tensionArc settings i t prevNotes k = Inr (c, k')"
  shows "drawn c = k"
    and "smoothed c = voiceLeading prevNotes (built c)"
    and "\<exists>k1. createRichVoicing opts rs (Suc k)
             (60 + roots progression ! (i mod length (roots progression)))
             (selectVoicing opts (rs k))
             (tensionArc ! i *
                (if p_complexity progression = 0 then 1 else p_complexity progression))
             i = Inr (built c, k1)"
    and "map midi (events c) = map (\<lambda>n. max 0 (min 127 n)) (smoothed c)"
proof -
  let ?rt = "60 + roots progression ! (i mod length (roots progression))"
  let ?x = "tensionArc ! i * (if p_complexity progression = 0 then 1 else p_complexity progression)"
  from assms obtain ns k1 where
    b: "createRichVoicing opts rs (Suc k) ?rt (selectVoicing opts (rs k)) ?x i = Inr (ns, k1)"
    by (cases "createRichVoicing opts rs (Suc k) ?rt (selectVoicing opts (rs k)) ?x i")
      (auto simp: progressionStep_def)
  obtain chordStart k2 where s: "applySwing opts rs k1 t = (chordStart, k2)"
    by (cases "applySwing opts rs k1 t")
  obtain evs k3 where a:
    "addNotes settings rs k2 chordStart (voiceLeading prevNotes ns) = (evs, k3)"
    by (cases "addNotes settings rs k2 chordStart (voiceLeading prevNotes ns)")
  have c: "c = \<lparr>drawn = k, built = ns, smoothed = voiceLeading prevNotes ns, events = evs\<rparr>"
    using assms b s a by (simp add: progressionStep_def)
  show "drawn c = k" and "smoothed c = voiceLeading prevNotes (built c)"
    by (simp_all add: c)
  show "\<exists>k1. createRichVoicing opts rs (Suc k) ?rt (selectVoicing opts (rs k)) ?x i
          = Inr (built c, k1)"
    using b by (simp add: c)
  have "map midi evs = map (\<lambda>n. max 0 (min 127 n)) (voiceLeading prevNotes ns)"
    using addNotes_midi [of settings rs k2 chordStart "voiceLeading prevNotes ns"] a by simp
  then show "map midi (events c) = map (\<lambda>n. max 0 (min 127 n)) (smoothed c)"
    by (simp add: c)
qed

lemma progressionLoop_chained:
  "progressionLoop opts rs progression tensionArc settings n i t prevNotes track k
      = Inr (track', k') \<Longrightarrow>
   \<exists>new. track' = track @ new \<and> length new = n
     \<and> chained opts rs progression tensionArc settings i t prevNotes k new"
proof (induction n arbitrary: i t prevNotes track k)
  case 0
  then show ?case by simp
next
  case (Suc n)
  from Suc.prems obtain c k3 where s:
    "progressionStep opts rs progression tensionArc settings i t prevNotes k = Inr (c, k3)"
    and l: "progressionLoop opts rs progression tensionArc settings n (Suc i) (t + 2)
              (smoothed c) (track @ [c]) k3 = Inr (track', k')"
    by (auto split: sum.splits)
  from Suc.IH [OF l] obtain new where n: "track' = (track @ [c]) @ new" "length new = n"
    "chained opts rs progression tensionArc settings (Suc i) (t + 2) (smoothed c) k3 new"
    by blast
  have "chained opts rs progression tensionArc settings i t prevNotes k (c # new)"
    using s n(3) by simp
  then show ?case using n(1,2) by (intro exI [of _ "c # new"]) simp
qed

lemma chained_nth:
  "chained opts rs progression tensionArc settings i t prevNotes k cs \<Longrightarrow> j < length cs \<Longrightarrow>
   \<exists>k'. progressionStep opts rs progression tensionArc settings (i + j) (t + 2 * real j)
          (if j = 0 then prevNotes else smoothed (cs ! (j - 1)))
          (if j = 0 then k else drawn (cs ! j)) = Inr (cs ! j, k')"
proof (induction cs arbitrary: i t prevNotes k j)
  case Nil
  then show ?case by simp
next
  case (Cons c cs)
  from Cons.prems(1) obtain k' where s:
    "progressionStep opts rs progression tensionArc settings i t prevNotes k = Inr (c, k')"
    and r: "chained opts rs progression tensionArc settings (Suc i) (t + 2) (smoothed c) k' cs"
    by (auto split: sum.splits)
  show ?case
  proof (cases j)
    case 0
    then show ?thesis using s by simp
  next
    case (Suc m)
    then have m: "m < length cs" using Cons.prems(2) by simp
    from Cons.IH [OF r m] obtain k'' where
      i: "progressionStep opts rs progression tensionArc settings (Suc i + m)
            (t + 2 + 2 * real m) (if m = 0 then smoothed c else smoothed (cs ! (m - 1)))
            (if m = 0 then k' else drawn (cs ! m)) = Inr (cs ! m, k'')"
      by blast
    have d: "drawn (cs ! m) = (if m = 0 then k' else drawn (cs ! m))"
      using progressionStep_Inr(1) [OF i] by simp
    have p: "(if m = 0 then smoothed c else smoothed (cs ! (m - 1)))
              = smoothed ((c # cs) ! (Suc m - 1))"
      by (cases m) simp_all
    have t: "t + 2 + 2 * real m = t + 2 * real (Suc m)" by simp
    show ?thesis
      unfolding Suc using i d p t by (intro exI [of _ k'']) (simp add: algebra_simps)
  qed
qed

lemma generateTrack_steps:
  assumes "generateTrack opts rs = Inr track"
  shows "\<exists>progression. selectProgression (active_style opts) (rs 1) = Some progression
     \<and> length track = 8
     \<and> (\<forall>j<8. \<exists>k'. progressionStep opts rs progression (fst (generateTensionArc 8 rs 2))
               (styleSettings (active_style opts)) j (2 * real j)
               (if j = 0 then [] else smoothed (track ! (j - 1)))
               (if j = 0 then 10 else drawn (track ! j)) = Inr (track ! j, k'))"
proof -
  have g: "generateTensionArc 8 rs 2 = (fst (generateTensionArc 8 rs 2), 10)"
    by (simp add: generateTensionArc_def)
  let ?arc = "fst (generateTensionArc 8 rs 2)"
  let ?st = "styleSettings (active_style opts)"
  from assms obtain progression where
    p: "selectProgression (active_style opts) (rs 1) = Some progression"
    unfolding generateTrack_def
    by (cases "selectProgression (active_style opts) (rs 1)") (auto split: prod.splits)
  from assms p obtain k' where
    l: "progressionLoop opts rs progression ?arc ?st 8 0 0 [] [] 10 = Inr (track, k')"
    unfolding generateTrack_def
    by (subst (asm) g)
      (cases "progressionLoop opts rs progression ?arc ?st 8 0 0 [] [] 10",
        auto simp del: progressionLoop.simps)
  from progressionLoop_chained [OF l] have n: "length track = 8"
    and c: "chained opts rs progression ?arc ?st 0 0 [] 10 track"
    by auto
  have "\<exists>k'. progressionStep opts rs progression ?arc ?st j (2 * real j)
               (if j = 0 then [] else smoothed (track ! (j - 1)))
               (if j = 0 then 10 else drawn (track ! j)) = Inr (track ! j, k')"
    if "j < 8" for j
    using chained_nth [OF c, of j] that n by simp
  then show ?thesis using p n by blast
qed

lemma generateTensionArc_nth:
  "i < len \<Longrightarrow> fst (generateTensionArc len rs k) ! i = tensionAt len i (rs (k + i))"
  by (simp add: generateTensionArc_def)

lemma built_nonempty:
  assumes "createRichVoicing opts rs k rt voicing cplx position = Inr (ns, k')"
  shows "ns \<noteq> []"
proof (cases voicing)
  case None
  then show ?thesis using assms by (simp add: createRichVoicing_def)
next
  case (Some v)
  then show ?thesis using assms createRichVoicing_some [of opts rs k rt v cplx position] by auto
qed

text \<open>
  What a completed loop says of its step \<open>j\<close>: the builder was called at the root and
  with the complexity of that step and returned \<open>built\<close>; \<open>smoothed\<close> is \<open>built\<close> after the
  voice-leading block, run against the smoothed notes of the step before (none at step
  0); the pitches of the events are the smoothed notes, clamped to \<open>[0, 127]\<close>.
\<close>

lemma generateTrack_step:
  assumes "generateTrack opts rs = Inr track" "j < 8"
  shows "\<exists>progression k1.
      selectProgression (active_style opts) (rs 1) = Some progression
      \<and> createRichVoicing opts rs (Suc (drawn (track ! j)))
           (60 + roots progression ! (j mod length (roots progression)))
           (selectVoicing opts (rs (drawn (track ! j))))
           (tensionAt 8 j (rs (2 + j)) *
              (if p_complexity progression = 0 then 1 else p_complexity progression))
           j = Inr (built (track ! j), k1)"
    and "built (track ! j) \<noteq> []"
    and "smoothed (track ! j) \<noteq> []"
    and "smoothed (track ! j)
           = voiceLeading (if j = 0 then [] else smoothed (track ! (j - 1))) (built (track ! j))"
    and "map midi (events (track ! j)) = map (\<lambda>n. max 0 (min 127 n)) (smoothed (track ! j))"
    and "j = 0 \<longrightarrow> drawn (track ! j) = 10"
proof -
  from generateTrack_steps [OF assms(1)] assms(2) obtain progression k' where
    p: "selectProgression (active_style opts) (rs 1) = Some progression"
    and s: "progressionStep opts rs progression (fst (generateTensionArc 8 rs 2))
               (styleSettings (active_style opts)) j (2 * real j)
               (if j = 0 then [] else smoothed (track ! (j - 1)))
               (if j = 0 then 10 else drawn (track ! j)) = Inr (track ! j, k')"
    by blast
  have d: "drawn (track ! j) = (if j = 0 then 10 else drawn (track ! j))"
    using progressionStep_Inr(1) [OF s] .
  then show "j = 0 \<longrightarrow> drawn (track ! j) = 10" by (cases j) simp_all
  from progressionStep_Inr(3) [OF s] obtain k1 where
    b: "createRichVoicing opts rs (Suc (drawn (track ! j)))
           (60 + roots progression ! (j mod length (roots progression)))
           (selectVoicing opts (rs (drawn (track ! j))))
           (tensionAt 8 j (rs (2 + j)) *
              (if p_complexity progression = 0 then 1 else p_complexity progression))
           j = Inr (built (track ! j), k1)"
    using d generateTensionArc_nth [OF assms(2), of rs 2] by auto
  then show "\<exists>progression k1.
      selectProgression (active_style opts) (rs 1) = Some progression
      \<and> createRichVoicing opts rs (Suc (drawn (track ! j)))
           (60 + roots progression ! (j mod length (roots progression)))
           (selectVoicing opts (rs (drawn (track ! j))))
           (tensionAt 8 j (rs (2 + j)) *
              (if p_complexity progression = 0 then 1 else p_complexity progression))
           j = Inr (built (track ! j), k1)"
    using p by blast
  show ne: "built (track ! j) \<noteq> []" using built_nonempty [OF b] .
  show v: "smoothed (track ! j)
           = voiceLeading (if j = 0 then [] else smoothed (track ! (j - 1))) (built (track ! j))"
    using progressionStep_Inr(2) [OF s] .
  show "smoothed (track ! j) \<noteq> []"
    using ne voiceLeading_length
      [of "if j = 0 then [] else smoothed (track ! (j - 1))" "built (track ! j)"] v
    by auto
  show "map midi (events (track ! j)) = map (\<lambda>n. max 0 (min 127 n)) (smoothed (track ! j))"
    using progressionStep_Inr(4) [OF s] .
qed

subsection \<open>Unfoldings and small facts\<close>

lemma generateMidiFile_unfold:
  "generateMidiFile toArray opts rs now =
     (case generateTrack opts rs of
        Inl e \<Rightarrow> Inl e
      | Inr track \<Rightarrow>
          (case toArray (run_tempo opts rs) (concat (map events track)) of
             Inl e \<Rightarrow> Inl e
           | Inr bytes \<Rightarrow>
               Inr \<lparr>data = bytes, tempo = run_tempo opts rs, name = piece_name opts now\<rparr>))"
  by (simp add: generateMidiFile_def)

lemma valid_rand_half: "valid_rand (\<lambda>_. 1 / 2)"
  by (simp add: valid_rand_def)

lemma map_nth_eq: "map f xs = ys \<Longrightarrow> i < length ys \<Longrightarrow> f (xs ! i) = ys ! i"
  by (metis length_map nth_map)

lemma createRichVoicing_unfold:
  "createRichVoicing opts rs k rt (Some v) cplx position =
     Inr (spreadVoicing opts rs (snd (voicingNotes opts rs k rt v cplx))
            (fst (voicingNotes opts rs k rt v cplx)) position)"
  by (simp add: createRichVoicing_def case_prod_unfold)

lemma nat_to_string_0: "nat_to_string 0 = ''0''"
  by (simp add: nat_to_string_def decimal_digits.simps [of 0] digit_char_def)

section \<open>Tension arc\<close>

lemma sqrt5_bounds: "11 / 5 < sqrt 5" "sqrt 5 < 12 / 5"
proof -
  have "(11 / 5 :: real) = sqrt ((11 / 5)^2)" by simp
  also have "\<dots> < sqrt 5" by (rule real_sqrt_less_mono) (simp add: power2_eq_square)
  finally show "11 / 5 < sqrt 5" .
  have "sqrt 5 < sqrt ((12 / 5)^2)" by (rule real_sqrt_less_mono) (simp add: power2_eq_square)
  also have "\<dots> = 12 / 5" by simp
  finally show "sqrt 5 < 12 / 5" .
qed

lemma phi_bounds: "16 / 10 < phi" "phi < 17 / 10"
  using sqrt5_bounds unfolding phi_def by simp_all

lemma peak_8: "peak 8 = 4"
proof -
  have p: "0 < phi" "16 / 10 < phi" "phi < 17 / 10"
    using phi_bounds by linarith+
  have "4 * phi \<le> 8" using p by linarith
  then have a: "4 \<le> 8 / phi" using p(1) by (simp add: pos_le_divide_eq)
  have "8 < 5 * phi" using p by linarith
  then have b: "8 / phi < 5" using p(1) by (simp add: pos_divide_less_eq)
  show ?thesis unfolding peak_def using a b by (simp add: floor_eq_iff)
qed

lemma tensionAt_range: "3 / 10 \<le> tensionAt len i r \<and> tensionAt len i r \<le> 9 / 10"
  unfolding tensionAt_def
  by (rule conjI, rule max.cobounded1, rule max.boundedI, simp, rule min.cobounded1)

text \<open>
  Claim C6. For every length \<open>L\<close> the arc has exactly \<open>L\<close> values and takes one draw
  for each; the value at step \<open>i\<close> is the stated clamp, with the peak at
  \<open>\<lfloor>L / \<phi>\<rfloor>\<close> and the noise \<open>(r - 0.5) \<cdot> 0.2\<close> of the draw \<open>r\<close>, which lies in
  \<open>[-0.1, 0.1)\<close> for a draw in \<open>[0, 1)\<close>; every value lies in \<open>[0.3, 0.9]\<close>.
\<close>

theorem tension_arc_values:
  "length (fst (generateTensionArc len rs k)) = len
   \<and> snd (generateTensionArc len rs k) = k + len
   \<and> (\<forall>i<len.
        fst (generateTensionArc len rs k) ! i =
          max (3 / 10) (min (9 / 10)
            (5 / 10
             + 4 / 10 * (1 - \<bar>real i - real_of_int \<lfloor>real len / ((1 + sqrt 5) / 2)\<rfloor>\<bar>
                              / (real len / 2))
             + (rs (k + i) - 5 / 10) * (2 / 10)))
        \<and> 3 / 10 \<le> fst (generateTensionArc len rs k) ! i
        \<and> fst (generateTensionArc len rs k) ! i \<le> 9 / 10
        \<and> (valid_rand rs \<longrightarrow>
              - (1 / 10) \<le> (rs (k + i) - 5 / 10) * (2 / 10)
              \<and> (rs (k + i) - 5 / 10) * (2 / 10) < 1 / 10))"
proof -
  have n: "fst (generateTensionArc len rs k) ! i = tensionAt len i (rs (k + i))" if "i < len" for i
    using that by (simp add: generateTensionArc_def)
  have v: "- (1 / 10) \<le> (rs (k + i) - 5 / 10) * (2 / 10)
              \<and> (rs (k + i) - 5 / 10) * (2 / 10) < 1 / 10" if "valid_rand rs" for i
  proof -
    have "0 \<le> rs (k + i)" "rs (k + i) < 1" using that by (simp_all add: valid_rand_def)
    then show ?thesis by simp
  qed
  have f: "tensionAt len i r =
          max (3 / 10) (min (9 / 10)
            (5 / 10
             + 4 / 10 * (1 - \<bar>real i - real_of_int \<lfloor>real len / ((1 + sqrt 5) / 2)\<rfloor>\<bar>
                              / (real len / 2))
             + (r - 5 / 10) * (2 / 10)))" for i r
    unfolding tensionAt_def peak_def phi_def ..
  have l: "length (fst (generateTensionArc len rs k)) = len"
    "snd (generateTensionArc len rs k) = k + len"
    by (simp_all add: generateTensionArc_def)
  show ?thesis
  proof (intro conjI allI impI)
    fix i assume i: "i < len"
    show "fst (generateTensionArc len rs k) ! i =
          max (3 / 10) (min (9 / 10)
            (5 / 10
             + 4 / 10 * (1 - \<bar>real i - real_of_int \<lfloor>real len / ((1 + sqrt 5) / 2)\<rfloor>\<bar>
                              / (real len / 2))
             + (rs (k + i) - 5 / 10) * (2 / 10)))"
      unfolding n [OF i] by (rule f)
    show "3 / 10 \<le> fst (generateTensionArc len rs k) ! i"
      unfolding n [OF i] using tensionAt_range by blast
    show "fst (generateTensionArc len rs k) ! i \<le> 9 / 10"
      unfolding n [OF i] using tensionAt_range by blast
    assume "valid_rand rs"
    from v [OF this, of i]
    show "- (1 / 10) \<le> (rs (k + i) - 5 / 10) * (2 / 10)"
      and "(rs (k + i) - 5 / 10) * (2 / 10) < 1 / 10" by blast+
  qed (rule l)+
qed

theorem tension_arc_values_witness:
  "valid_rand (\<lambda>_. 0) \<and> (4::nat) < 8
   \<and> fst (generateTensionArc 8 (\<lambda>_. 0) 2) ! 4 = 8 / 10
   \<and> \<lfloor>real 8 / ((1 + sqrt 5) / 2)\<rfloor> = 4"
proof -
  have p: "\<lfloor>real 8 / ((1 + sqrt 5) / 2)\<rfloor> = 4"
    using peak_8 unfolding peak_def phi_def .
  have "\<forall>i<8. fst (generateTensionArc 8 (\<lambda>_. 0) 2) ! i =
          max (3 / 10) (min (9 / 10)
            (5 / 10
             + 4 / 10 * (1 - \<bar>real i - real_of_int \<lfloor>real 8 / ((1 + sqrt 5) / 2)\<rfloor>\<bar>
                              / (real 8 / 2))
             + (0 - 5 / 10) * (2 / 10)))"
    using tension_arc_values [of 8 "\<lambda>_. 0" 2] by blast
  then have "fst (generateTensionArc 8 (\<lambda>_. 0) 2) ! 4 =
          max (3 / 10) (min (9 / 10)
            (5 / 10
             + 4 / 10 * (1 - \<bar>real 4 - real_of_int \<lfloor>real 8 / ((1 + sqrt 5) / 2)\<rfloor>\<bar>
                              / (real 8 / 2))
             + (0 - 5 / 10) * (2 / 10)))"
    by simp
  also have "\<dots> = 8 / 10" unfolding p by simp
  finally show ?thesis using p by (simp add: valid_rand_def)
qed

section \<open>A complete run\<close>

text \<open>
  The run without options in which every draw is \<open>0.5\<close>: the progression is the
  standard one, every chord is built on the voicing \<open>maj9_13\<close>, the steps 3 to 5 add the
  tension 15, the steps 5 to 7 append a pitch a fifth above the top, and the smoothing
  pulls that pitch down an octave at step 5 only. Every chord starts on the 2-second
  grid, and the encoder of the examples accepts the track.
\<close>

lemma arc_half:
  "generateTensionArc 8 (\<lambda>_. 1 / 2) 2
     = ([5 / 10, 6 / 10, 7 / 10, 8 / 10, 9 / 10, 8 / 10, 7 / 10, 6 / 10], 10)"
proof -
  have u: "[0..<8] = [0, 1, 2, 3, 4, 5, 6, 7]" by (simp add: upt_rec)
  show ?thesis
    unfolding generateTensionArc_def u by (simp add: tensionAt_def peak_8)
qed

lemma select_half: "selectVoicing no_options (1 / 2) = Some (snd (voicings ! 3))"
  by (simp add: selectVoicing_def voicingKeys_no_options index_def random_index_def voicings_def)

lemma run_example:
  "\<exists>track. generateTrack no_options (\<lambda>_. 1 / 2) = Inr track
    \<and> map drawn track = [10, 35, 61, 87, 118, 149, 184, 214]
    \<and> map built track =
       [[48, 60, 64, 67, 71, 74, 81], [53, 65, 69, 72, 74, 76, 79],
        [51, 63, 67, 70, 74, 77, 84], [52, 64, 68, 71, 75, 78, 79, 85],
        [48, 60, 64, 67, 71, 74, 75, 81], [53, 65, 69, 72, 76, 79, 80, 86, 93],
        [51, 63, 67, 70, 74, 77, 84, 91], [52, 64, 68, 71, 73, 75, 78, 85]]
    \<and> map smoothed track =
       [[48, 60, 64, 67, 71, 74, 81], [53, 65, 69, 72, 74, 76, 79],
        [51, 63, 67, 70, 74, 77, 84], [52, 64, 68, 71, 75, 78, 79, 85],
        [48, 60, 64, 67, 71, 74, 75, 81], [53, 65, 69, 72, 76, 79, 80, 86, 81],
        [51, 63, 67, 70, 74, 77, 84, 91], [52, 64, 68, 71, 73, 75, 78, 85]]
    \<and> map (\<lambda>c. map midi (events c)) track = map smoothed track
    \<and> map (\<lambda>c. map time (events c)) track =
       [[0, 0, 0, 0, 0, 0, 0], [2, 2, 2, 2, 2, 2, 2], [4, 4, 4, 4, 4, 4, 4],
        [6, 6, 6, 6, 6, 6, 6, 6], [8, 8, 8, 8, 8, 8, 8, 8],
        [10, 10, 10, 10, 10, 10, 10, 10, 10], [12, 12, 12, 12, 12, 12, 12, 12],
        [14, 14, 14, 14, 14, 14, 14, 14]]
    \<and> sample_encoder (run_tempo no_options (\<lambda>_. 1 / 2)) (concat (map events track))
        = Inr (map nat (concat (map smoothed track)))"
proof -
  have p: "selectProgression Uptempo (1 / 2) = Some (progressionTemplates ! 0)"
    by (simp add: selectProgression_def validTemplates_cases index_def random_index_def)
  have e: "(8::nat) = Suc (Suc (Suc (Suc (Suc (Suc (Suc (Suc 0)))))))" by simp
  show ?thesis
    unfolding generateTrack_def arc_half
    apply (simp add: active_style_def no_options_def p del: progressionLoop.simps)
    apply (subst e)
    apply (simp add: select_half [unfolded no_options_def] progressionTemplates_def
        voicings_def progressionStep_def createRichVoicing_def notesBeforeBass_def
        voicingNotes_def set_add_def applyArtistModifications_def random_index_def
        spreadVoicing_def beforeClamp_def minSpacing_def doubling_def eraAdjust_def
        artistAdjust_def positionAdjust_def clampRange_def max_of_def
        voiceLeading_def smoothNote_def closest_def applySwing_def active_style_def
        no_options_def sample_encoder_def run_tempo_def)
    done
qed

section \<open>Error handling of the entry point\<close>

text \<open>
  Claim C2. Whenever the generation throws, \<open>generateAndDownloadMidi\<close> raises the one
  generic failure and delivers no descriptor, and it raises nothing else, whatever the
  encoder is. The branch is
  reachable: for the era \<open>late80s\<close> without artist influence no catalog voicing passes
  the filter, the selection reads outside the empty key list, and the generation throws
  for every random tape and every clock value.
\<close>

theorem failure_is_generic_and_reachable:
  "(generateMidiFile toArray opts rs now = Inl e \<longrightarrow>
      generateAndDownloadMidi toArray opts rs now = Inl GenerationFailed)
   \<and> (generateAndDownloadMidi toArray opts rs now = Inl e' \<longrightarrow>
        e' = GenerationFailed \<and> (\<exists>e0. generateMidiFile toArray opts rs now = Inl e0))
   \<and> voicingKeys (no_options\<lparr>era := Some Late80s\<rparr>) = []
   \<and> selectVoicing (no_options\<lparr>era := Some Late80s\<rparr>) r = None
   \<and> generateMidiFile toArray' (no_options\<lparr>era := Some Late80s\<rparr>) rs' now' = Inl TypeError
   \<and> generateAndDownloadMidi toArray' (no_options\<lparr>era := Some Late80s\<rparr>) rs' now'
        = Inl GenerationFailed"
proof -
  let ?late = "no_options\<lparr>era := Some Late80s\<rparr>"
  have a: "generateMidiFile toArray opts rs now = Inl e \<longrightarrow>
      generateAndDownloadMidi toArray opts rs now = Inl GenerationFailed"
    by (simp add: generateAndDownloadMidi_Inl)
  have b: "generateAndDownloadMidi toArray opts rs now = Inl e' \<longrightarrow>
        e' = GenerationFailed \<and> (\<exists>e0. generateMidiFile toArray opts rs now = Inl e0)"
    by (cases "generateMidiFile toArray opts rs now") (auto simp: generateAndDownloadMidi_def)
  have c: "selectVoicing ?late r = None"
    using voicingKeys_late80s by (rule selectVoicing_empty)
  have d: "generateMidiFile toArray' ?late rs' now' = Inl TypeError"
    using voicingKeys_late80s by (rule generateMidiFile_empty)
  have "generateAndDownloadMidi toArray' ?late rs' now' = Inl GenerationFailed"
    using d by (rule generateAndDownloadMidi_Inl)
  with a b c d voicingKeys_late80s show ?thesis by blast
qed

theorem failure_is_generic_and_reachable_witness:
  "generateMidiFile sample_encoder (no_options\<lparr>era := Some Late80s\<rparr>) (\<lambda>_. 0) 0 = Inl TypeError
   \<and> generateAndDownloadMidi sample_encoder (no_options\<lparr>era := Some Late80s\<rparr>) (\<lambda>_. 0) 0
        = Inl GenerationFailed"
proof -
  let ?late = "no_options\<lparr>era := Some Late80s\<rparr>"
  have h: "generateMidiFile sample_encoder ?late (\<lambda>_. 0) 0 = Inl TypeError"
    using voicingKeys_late80s by (rule generateMidiFile_empty)
  from failure_is_generic_and_reachable [of sample_encoder ?late "\<lambda>_. 0" 0 TypeError]
  have "generateMidiFile sample_encoder ?late (\<lambda>_. 0) 0 = Inl TypeError \<longrightarrow>
      generateAndDownloadMidi sample_encoder ?late (\<lambda>_. 0) 0 = Inl GenerationFailed"
    by (rule conjunct1)
  with h show ?thesis by simp
qed

section \<open>The fixed length of the progression\<close>

text \<open>
  Claim C1 says that every configuration yields note events for exactly 8 chords, with
  every pitch in \<open>[0, 127]\<close>. For a configuration whose filter keeps a voicing this is
  \<open>generateTrack_total\<close>. At the configuration \<open>{ era: '70s' }\<close> it fails: no
  catalog voicing carries that era, so the first iteration throws and no chord is
  emitted, whatever the random draws are.
\<close>

theorem generateMidiFile_70s_throws:
  "generateMidiFile toArray (no_options\<lparr>era := Some E70s\<rparr>) rs now = Inl TypeError"
  using voicingKeys_70s by (rule generateMidiFile_empty)

section \<open>Progression choice\<close>

text \<open>
  Claim C10. With the style unset or \<open>uptempo\<close>, the template filter keeps exactly one
  of the four catalog templates, the standard one, and the selection returns it for every
  draw. The run uses it: the loop completes when the voicing filter keeps a voicing, and
  in a completed loop the chord of step \<open>j\<close> is what the builder returns for the root
  \<open>60 + [0, 5, 3, 4][j mod 4]\<close> and the complexity \<open>tensionArc[j] \<cdot> 0.7\<close>; with an empty
  voicing filter the first call of the builder throws. The tempo of such a run is drawn
  from \<open>[120, 135)\<close>.
\<close>

theorem uptempo_progression_is_standard:
  assumes "style opts = None \<or> style opts = Some Uptempo" "valid_rand rs"
  shows "length progressionTemplates = 4
    \<and> validTemplates (active_style opts) =
        [\<lparr>roots = [0, 5, 3, 4], weights = [1, 8 / 10, 7 / 10, 9 / 10],
           p_style = ''standard'', p_complexity = 7 / 10\<rparr>]
    \<and> selectProgression (active_style opts) (rs 1) =
        Some \<lparr>roots = [0, 5, 3, 4], weights = [1, 8 / 10, 7 / 10, 9 / 10],
           p_style = ''standard'', p_complexity = 7 / 10\<rparr>
    \<and> (voicingKeys opts \<noteq> [] \<longrightarrow> (\<exists>track'. generateTrack opts rs = Inr track'))
    \<and> (voicingKeys opts = [] \<longrightarrow> generateTrack opts rs = Inl TypeError)
    \<and> (generateTrack opts rs = Inr track \<longrightarrow>
          length track = 8 \<and> drawn (track ! 0) = 10
          \<and> (\<forall>j<8.
                (\<exists>k1. createRichVoicing opts rs (Suc (drawn (track ! j)))
                        (60 + [0, 5, 3, 4] ! (j mod 4))
                        (selectVoicing opts (rs (drawn (track ! j))))
                        (tensionAt 8 j (rs (2 + j)) * (7 / 10)) j
                      = Inr (built (track ! j), k1))
                \<and> smoothed (track ! j)
                    = voiceLeading (if j = 0 then [] else smoothed (track ! (j - 1)))
                        (built (track ! j))
                \<and> map midi (events (track ! j))
                    = map (\<lambda>n. max 0 (min 127 n)) (smoothed (track ! j))))
    \<and> generateMidiFile toArray opts rs now =
        (case generateTrack opts rs of
           Inl e \<Rightarrow> Inl e
         | Inr track \<Rightarrow>
             (case toArray (120 + rs 0 * 15) (concat (map events track)) of
                Inl e \<Rightarrow> Inl e
              | Inr bytes \<Rightarrow>
                  Inr \<lparr>data = bytes, tempo = 120 + rs 0 * 15, name = piece_name opts now\<rparr>))"
proof -
  let ?std = "\<lparr>roots = [0, 5, 3, 4], weights = [1, 8 / 10, 7 / 10, 9 / 10],
           p_style = ''standard'', p_complexity = 7 / 10 :: real\<rparr>"
  have s: "active_style opts = Uptempo" using assms(1) by (auto simp: active_style_def)
  have v: "validTemplates Uptempo = [?std]"
    by (simp add: validTemplates_def progressionTemplates_def)
  have "0 \<le> rs 1" "rs 1 < 1" using assms(2) by (simp_all add: valid_rand_def)
  then have "random_index (rs 1) 1 < 1" by (intro random_index_less) simp_all
  then have p: "selectProgression Uptempo (rs 1) = Some ?std"
    by (simp add: selectProgression_def v index_def)
  have l: "length progressionTemplates = 4" by (simp add: progressionTemplates_def)
  have t: "voicingKeys opts \<noteq> [] \<longrightarrow> (\<exists>track'. generateTrack opts rs = Inr track')"
    using generateTrack_total [OF assms(2)] by blast
  have e: "voicingKeys opts = [] \<longrightarrow> generateTrack opts rs = Inl TypeError"
    using generateTrack_empty by blast
  have r: "run_tempo opts rs = 120 + rs 0 * 15" by (simp add: run_tempo_def s)
  have g: "generateMidiFile toArray opts rs now =
        (case generateTrack opts rs of
           Inl e \<Rightarrow> Inl e
         | Inr track \<Rightarrow>
             (case toArray (120 + rs 0 * 15) (concat (map events track)) of
                Inl e \<Rightarrow> Inl e
              | Inr bytes \<Rightarrow>
                  Inr \<lparr>data = bytes, tempo = 120 + rs 0 * 15, name = piece_name opts now\<rparr>))"
    unfolding generateMidiFile_unfold r ..
  have u: "length track = 8 \<and> drawn (track ! 0) = 10
          \<and> (\<forall>j<8.
                (\<exists>k1. createRichVoicing opts rs (Suc (drawn (track ! j)))
                        (60 + [0, 5, 3, 4] ! (j mod 4))
                        (selectVoicing opts (rs (drawn (track ! j))))
                        (tensionAt 8 j (rs (2 + j)) * (7 / 10)) j
                      = Inr (built (track ! j), k1))
                \<and> smoothed (track ! j)
                    = voiceLeading (if j = 0 then [] else smoothed (track ! (j - 1)))
                        (built (track ! j))
                \<and> map midi (events (track ! j))
                    = map (\<lambda>n. max 0 (min 127 n)) (smoothed (track ! j)))"
    if tr: "generateTrack opts rs = Inr track"
  proof (intro conjI allI impI)
    show "length track = 8" using generateTrack_steps [OF tr] by blast
    show "drawn (track ! 0) = 10" using generateTrack_step(6) [OF tr, of 0] by simp
  next
    fix j :: nat assume j: "j < 8"
    from generateTrack_step(1) [OF tr j] obtain progression k1 where
      "selectProgression (active_style opts) (rs 1) = Some progression"
      and b: "createRichVoicing opts rs (Suc (drawn (track ! j)))
           (60 + roots progression ! (j mod length (roots progression)))
           (selectVoicing opts (rs (drawn (track ! j))))
           (tensionAt 8 j (rs (2 + j)) *
              (if p_complexity progression = 0 then 1 else p_complexity progression))
           j = Inr (built (track ! j), k1)"
      by blast
    then have "progression = ?std" using p s by simp
    then show "\<exists>k1. createRichVoicing opts rs (Suc (drawn (track ! j)))
                        (60 + [0, 5, 3, 4] ! (j mod 4))
                        (selectVoicing opts (rs (drawn (track ! j))))
                        (tensionAt 8 j (rs (2 + j)) * (7 / 10)) j
                      = Inr (built (track ! j), k1)"
      using b by auto
    show "smoothed (track ! j)
            = voiceLeading (if j = 0 then [] else smoothed (track ! (j - 1)))
                (built (track ! j))"
      by (rule generateTrack_step(4) [OF tr j])
    show "map midi (events (track ! j))
            = map (\<lambda>n. max 0 (min 127 n)) (smoothed (track ! j))"
      by (rule generateTrack_step(5) [OF tr j])
  qed
  from u have u': "generateTrack opts rs = Inr track \<longrightarrow>
          length track = 8 \<and> drawn (track ! 0) = 10
          \<and> (\<forall>j<8.
                (\<exists>k1. createRichVoicing opts rs (Suc (drawn (track ! j)))
                        (60 + [0, 5, 3, 4] ! (j mod 4))
                        (selectVoicing opts (rs (drawn (track ! j))))
                        (tensionAt 8 j (rs (2 + j)) * (7 / 10)) j
                      = Inr (built (track ! j), k1))
                \<and> smoothed (track ! j)
                    = voiceLeading (if j = 0 then [] else smoothed (track ! (j - 1)))
                        (built (track ! j))
                \<and> map midi (events (track ! j))
                    = map (\<lambda>n. max 0 (min 127 n)) (smoothed (track ! j)))"
    by (rule impI)
  show ?thesis
    unfolding s by (intro conjI) (rule l v p t e u' g)+
qed

theorem uptempo_progression_is_standard_witness:
  "style no_options = None \<and> valid_rand (\<lambda>_. 1 / 2)
   \<and> (\<exists>track. generateTrack no_options (\<lambda>_. 1 / 2) = Inr track
        \<and> drawn (track ! 1) = 35
        \<and> built (track ! 1) = [53, 65, 69, 72, 74, 76, 79]
        \<and> (\<exists>k1. createRichVoicing no_options (\<lambda>_. 1 / 2) 36 65
                   (selectVoicing no_options (1 / 2)) (6 / 10 * (7 / 10)) 1
                 = Inr ([53, 65, 69, 72, 74, 76, 79], k1)))"
proof -
  have s: "style no_options = None \<or> style no_options = Some Uptempo"
    by (simp add: no_options_def)
  from run_example obtain track where
    tr: "generateTrack no_options (\<lambda>_. 1 / 2) = Inr track"
    and d: "map drawn track = [10, 35, 61, 87, 118, 149, 184, 214]"
    and b: "map built track =
       [[48, 60, 64, 67, 71, 74, 81], [53, 65, 69, 72, 74, 76, 79],
        [51, 63, 67, 70, 74, 77, 84], [52, 64, 68, 71, 75, 78, 79, 85],
        [48, 60, 64, 67, 71, 74, 75, 81], [53, 65, 69, 72, 76, 79, 80, 86, 93],
        [51, 63, 67, 70, 74, 77, 84, 91], [52, 64, 68, 71, 73, 75, 78, 85]]"
    by (elim exE conjE)
  have d1: "drawn (track ! 1) = 35" using map_nth_eq [OF d, of 1] by simp
  have b1: "built (track ! 1) = [53, 65, 69, 72, 74, 76, 79]"
    using map_nth_eq [OF b, of 1] by simp
  have ta: "tensionAt 8 1 (1 / 2) = 6 / 10" by (simp add: tensionAt_def peak_8)
  from uptempo_progression_is_standard [OF s valid_rand_half, of track sample_encoder 0]
  have "generateTrack no_options (\<lambda>_. 1 / 2) = Inr track \<longrightarrow>
          length track = 8 \<and> drawn (track ! 0) = 10
          \<and> (\<forall>j<8.
                (\<exists>k1. createRichVoicing no_options (\<lambda>_. 1 / 2) (Suc (drawn (track ! j)))
                        (60 + [0, 5, 3, 4] ! (j mod 4))
                        (selectVoicing no_options (1 / 2))
                        (tensionAt 8 j (1 / 2) * (7 / 10)) j
                      = Inr (built (track ! j), k1))
                \<and> smoothed (track ! j)
                    = voiceLeading (if j = 0 then [] else smoothed (track ! (j - 1)))
                        (built (track ! j))
                \<and> map midi (events (track ! j))
                    = map (\<lambda>n. max 0 (min 127 n)) (smoothed (track ! j)))"
    by (elim conjE)
  with tr have "\<forall>j<8. \<exists>k1. createRichVoicing no_options (\<lambda>_. 1 / 2)
                        (Suc (drawn (track ! j)))
                        (60 + [0, 5, 3, 4] ! (j mod 4))
                        (selectVoicing no_options (1 / 2))
                        (tensionAt 8 j (1 / 2) * (7 / 10)) j
                      = Inr (built (track ! j), k1)"
    by blast
  from spec [OF this, of 1]
  have "\<exists>k1. createRichVoicing no_options (\<lambda>_. 1 / 2) (Suc (drawn (track ! 1)))
                        (60 + [0, 5, 3, 4] ! (1 mod 4))
                        (selectVoicing no_options (1 / 2))
                        (tensionAt 8 1 (1 / 2) * (7 / 10)) 1
                      = Inr (built (track ! 1), k1)"
    by simp
  note w = this [unfolded d1 b1 ta]
  have "\<exists>k1. createRichVoicing no_options (\<lambda>_. 1 / 2) 36 65
                   (selectVoicing no_options (1 / 2)) (6 / 10 * (7 / 10)) 1
                 = Inr ([53, 65, 69, 72, 74, 76, 79], k1)"
    using w by simp
  then show ?thesis using tr d1 b1 valid_rand_half by (auto simp: no_options_def)
qed

section \<open>Voice leading\<close>

lemma first_closest_single: "first_closest [x] n x"
  by (simp add: first_closest_def)

lemma first_closest_snoc:
  assumes "first_closest ps n c"
  shows "first_closest (ps @ [y]) n (if \<bar>y - n\<bar> < \<bar>c - n\<bar> then y else c)"
proof -
  obtain i where i: "i < length ps" "c = ps ! i"
    "\<forall>j<length ps. \<bar>ps ! i - n\<bar> \<le> \<bar>ps ! j - n\<bar>"
    "\<forall>j<i. \<bar>ps ! i - n\<bar> < \<bar>ps ! j - n\<bar>"
    using assms unfolding first_closest_def by blast
  show ?thesis
  proof (cases "\<bar>y - n\<bar> < \<bar>c - n\<bar>")
    case True
    have "\<forall>j<length (ps @ [y]). \<bar>y - n\<bar> \<le> \<bar>(ps @ [y]) ! j - n\<bar>"
      using True i by (auto simp: nth_append less_Suc_eq intro: order_trans less_imp_le)
    moreover have "\<forall>j<length ps. \<bar>y - n\<bar> < \<bar>(ps @ [y]) ! j - n\<bar>"
      using True i by (auto simp: nth_append intro: less_le_trans)
    ultimately show ?thesis
      using True unfolding first_closest_def
      by (intro exI [of _ "length ps"]) simp
  next
    case False
    have "\<forall>j<length (ps @ [y]). \<bar>ps ! i - n\<bar> \<le> \<bar>(ps @ [y]) ! j - n\<bar>"
      using False i by (auto simp: nth_append less_Suc_eq)
    moreover have "\<forall>j<i. \<bar>ps ! i - n\<bar> < \<bar>(ps @ [y]) ! j - n\<bar>"
      using i by (auto simp: nth_append)
    ultimately show ?thesis
      using False i(1,2) unfolding first_closest_def
      by (intro exI [of _ i]) (simp add: nth_append)
  qed
qed

lemma first_closest_foldl:
  "first_closest (x # xs) n
     (foldl (\<lambda>prev curr. if \<bar>curr - n\<bar> < \<bar>prev - n\<bar> then curr else prev) x xs)"
proof (induction xs rule: rev_induct)
  case Nil
  show ?case by (simp add: first_closest_single)
next
  case (snoc y ys)
  from first_closest_snoc [OF snoc.IH, of y] show ?case by simp
qed

lemma closest_first_closest: "prevNotes \<noteq> [] \<Longrightarrow> first_closest prevNotes n (closest prevNotes n)"
  using first_closest_foldl [of "hd prevNotes" "tl prevNotes" n] by (simp add: closest_def)



text \<open>
  Claim C4 states the directions the other way round (down when the closest previous
  note is higher). The source shifts up in that case: after the chord \<open>[72]\<close> the note
  60 becomes 72, not 48, and after \<open>[60]\<close> the note 70 becomes 58, not 82.
\<close>

theorem smoothing_direction_counterexample:
  "closest [72] 60 = 72 \<and> 7 < \<bar>closest [72] 60 - 60\<bar> \<and> 60 < closest [72] 60
   \<and> smoothNote [72] 60 = 60 + 12 \<and> smoothNote [72] 60 \<noteq> 60 - 12
   \<and> closest [60] 70 = 60 \<and> 7 < \<bar>closest [60] 70 - 70\<bar> \<and> \<not> 70 < closest [60] 70
   \<and> smoothNote [60] 70 = 70 - 12 \<and> smoothNote [60] 70 \<noteq> 70 + 12"
  by (simp add: smoothNote_def closest_def)

text \<open>
  Claim C4 as amended: when the minimal distance exceeds 7 semitones the note is shifted
  one octave up if the closest previous note is higher than it and one octave down
  otherwise; either way the shift brings it nearer to that closest note.
\<close>

theorem smoothing_shifts_toward_closest:
  assumes "prevNotes \<noteq> []" "\<bar>closest prevNotes n - n\<bar> > 7"
  shows "smoothNote prevNotes n = (if closest prevNotes n > n then n + 12 else n - 12)
     \<and> \<bar>closest prevNotes n - smoothNote prevNotes n\<bar> < \<bar>closest prevNotes n - n\<bar>
     \<and> first_closest prevNotes n (closest prevNotes n)"
proof -
  have "smoothNote prevNotes n = (if closest prevNotes n > n then n + 12 else n - 12)"
    using assms(2) by (simp add: smoothNote_def)
  moreover from this have
    "\<bar>closest prevNotes n - smoothNote prevNotes n\<bar> < \<bar>closest prevNotes n - n\<bar>"
    using assms(2) by (simp split: if_splits)
  ultimately show ?thesis using closest_first_closest [OF assms(1)] by simp
qed

theorem smoothing_shifts_toward_closest_witness:
  "[72] \<noteq> [] \<and> \<bar>closest [72] 60 - 60\<bar> > 7 \<and> smoothNote [72] 60 = 72"
proof -
  have a: "[72] \<noteq> ([] :: int list)" by simp
  have b: "\<bar>closest [72] 60 - 60\<bar> > 7" by (simp add: closest_def)
  have c: "closest [72] 60 > 60" by (simp add: closest_def)
  from smoothing_shifts_toward_closest [OF a b] c
  have "smoothNote [72] 60 = 72" by simp
  with a b show ?thesis by simp
qed

section \<open>The bass note\<close>

lemma set_set_add: "set (set_add x xs) = insert x (set xs)"
  by (auto simp: set_add_def)

lemma set_add_distinct: "distinct xs \<Longrightarrow> distinct (set_add x xs)"
  by (simp add: set_add_def)

lemma addIntervals_distinct:
  "distinct ns \<Longrightarrow> distinct (fst (addIntervals opts rs rt ivs ns k))"
proof (induction ivs arbitrary: ns k)
  case Nil
  then show ?case by simp
next
  case (Cons iv ivs)
  obtain n0 k' where a: "adjustNoteForEra opts rs k (rt + iv) = (n0, k')"
    by (cases "adjustNoteForEra opts rs k (rt + iv)")
  have "distinct (set_add n0 ns)" using Cons.prems by (rule set_add_distinct)
  from Cons.IH [OF this, of k'] show ?case using a by (simp del: adjustNoteForEra.simps)
qed

lemma addTensions_distinct:
  "distinct ns \<Longrightarrow> distinct (fst (addTensions opts rs rt v n ns k))"
proof (induction n arbitrary: ns k)
  case 0
  then show ?case by simp
next
  case (Suc n)
  show ?case
    using Suc.IH [OF Suc.prems] Suc.IH [OF set_add_distinct [OF Suc.prems]]
    by (simp del: getEraTensionProbability.simps)
qed

lemma mariya_loop_distinct: "distinct ns \<Longrightarrow> distinct (mariya_loop rt ns i)"
proof (induction rt ns i rule: mariya_loop.induct)
  case (1 rt ns i)
  show ?case
  proof (cases "i < length ns")
    case True
    have "distinct (if ns ! i - rt > 12 then set_add (ns ! i - 12) ns else ns)"
      using "1.prems" by (simp add: set_add_distinct)
    from "1.IH" [OF True this] show ?thesis using True by (subst mariya_loop.simps) simp
  next
    case False
    then show ?thesis using "1.prems" by (subst mariya_loop.simps) simp
  qed
qed

lemma applyArtistModifications_distinct:
  "distinct ns \<Longrightarrow> distinct (applyArtistModifications opts ns rt)"
  by (simp add: applyArtistModifications_def set_add_distinct mariya_loop_distinct)

lemma notesBeforeBass_distinct: "distinct (fst (notesBeforeBass opts rs k rt v cplx))"
proof -
  let ?i = "addIntervals opts rs rt (intervals v) [] k"
  let ?t = "addTensions opts rs rt v
      (nat \<lfloor>cplx * (if era opts = Some Mid80s then 3 else 2)\<rfloor>) (fst ?i) (snd ?i)"
  have "distinct (fst ?i)" by (rule addIntervals_distinct) simp
  then have t: "distinct (fst ?t)" by (rule addTensions_distinct)
  then have "distinct (applyArtistModifications opts (fst ?t) rt)"
    by (rule applyArtistModifications_distinct)
  with t have "distinct (if artistStyle v = artistInfluence opts
             then applyArtistModifications opts (fst ?t) rt else fst ?t)" by simp
  then show ?thesis by (simp add: notesBeforeBass_def case_prod_unfold)
qed

lemma voicingNotes_unfold:
  "voicingNotes opts rs k rt v cplx =
     (set_add (rt - fst (getBassProbability opts rs (snd (notesBeforeBass opts rs k rt v cplx))))
        (fst (notesBeforeBass opts rs k rt v cplx)),
      snd (getBassProbability opts rs (snd (notesBeforeBass opts rs k rt v cplx))))"
  by (simp add: voicingNotes_def case_prod_unfold del: getBassProbability.simps)

lemma voicingNotes_distinct: "distinct (fst (voicingNotes opts rs k rt v cplx))"
  unfolding voicingNotes_unfold fst_conv
  by (rule set_add_distinct) (rule notesBeforeBass_distinct)

lemma spreadVoicing_nonempty: "ns \<noteq> [] \<Longrightarrow> fst (spreadVoicing opts rs k ns position) \<noteq> []"
  using spreadVoicing_length [of ns opts rs k position] by auto

lemma count_list_distinct: "distinct xs \<Longrightarrow> x \<in> set xs \<Longrightarrow> count_list xs x = 1"
  by (induction xs) (auto simp: count_list_0_iff)

lemma count_list_set_add:
  "distinct xs \<Longrightarrow> count_list (set_add x xs) x = 1"
  by (simp add: set_add_def count_list_distinct count_list_0_iff)

text \<open>
  Without the era \<open>70s\<close> every pitch of the set lies at or above the root when the bass
  note is added, for a catalog voicing and draws in \<open>[0, 1)\<close>; the bass note lies below.
\<close>

lemma adjustNoteForEra_ge:
  "era opts \<noteq> Some E70s \<Longrightarrow> rt \<le> x \<Longrightarrow> rt \<le> fst (adjustNoteForEra opts rs k x)"
  by (simp split: option.splits era.splits)

lemma addIntervals_ge:
  assumes "era opts \<noteq> Some E70s" and "\<forall>iv\<in>set ivs. 0 \<le> iv" and "\<forall>n\<in>set ns. rt \<le> n"
  shows "\<forall>n\<in>set (fst (addIntervals opts rs rt ivs ns k)). rt \<le> n"
  using assms(2,3)
proof (induction ivs arbitrary: ns k)
  case Nil
  then show ?case by simp
next
  case (Cons iv ivs)
  obtain n0 k' where a: "adjustNoteForEra opts rs k (rt + iv) = (n0, k')"
    by (cases "adjustNoteForEra opts rs k (rt + iv)")
  have "rt \<le> rt + iv" using Cons.prems(1) by simp
  from adjustNoteForEra_ge [OF assms(1) this, of rs k] have "rt \<le> n0" using a by simp
  then have "\<forall>n\<in>set (set_add n0 ns). rt \<le> n" using Cons.prems(2) by (simp add: set_set_add)
  from Cons.IH [OF _ this, of k'] show ?case
    using a Cons.prems(1) by (simp del: adjustNoteForEra.simps)
qed

lemma addTensions_ge:
  assumes "valid_rand rs" and "tensions v \<noteq> []" and "\<forall>t\<in>set (tensions v). 0 \<le> t"
    and "\<forall>n\<in>set ns. rt \<le> n"
  shows "\<forall>n\<in>set (fst (addTensions opts rs rt v m ns k)). rt \<le> n"
  using assms(4)
proof (induction m arbitrary: ns k)
  case 0
  then show ?case by simp
next
  case (Suc m)
  have "random_index (rs (Suc k)) (length (tensions v)) < length (tensions v)"
    using assms(1,2) by (intro random_index_less) (simp_all add: valid_rand_def)
  then have "0 \<le> tensions v ! random_index (rs (Suc k)) (length (tensions v))"
    using assms(3) nth_mem by blast
  then have "\<forall>n\<in>set (set_add (rt + tensions v ! random_index (rs (Suc k)) (length (tensions v)))
                 ns). rt \<le> n"
    using Suc.prems by (simp add: set_set_add)
  from Suc.IH [OF this] Suc.IH [OF Suc.prems] show ?case
    by (simp del: getEraTensionProbability.simps)
qed

lemma mariya_loop_ge: "\<forall>n\<in>set ns. rt \<le> n \<Longrightarrow> \<forall>n\<in>set (mariya_loop rt ns i). rt \<le> n"
proof (induction rt ns i rule: mariya_loop.induct)
  case (1 rt ns i)
  show ?case
  proof (cases "i < length ns")
    case True
    have "\<forall>n\<in>set (if ns ! i - rt > 12 then set_add (ns ! i - 12) ns else ns). rt \<le> n"
      using "1.prems" by (simp add: set_set_add)
    from "1.IH" [OF True this] show ?thesis using True by (subst mariya_loop.simps) simp
  next
    case False
    then show ?thesis using "1.prems" by (subst mariya_loop.simps) simp
  qed
qed

lemma applyArtistModifications_ge:
  "\<forall>n\<in>set ns. rt \<le> n \<Longrightarrow> \<forall>n\<in>set (applyArtistModifications opts ns rt). rt \<le> n"
  using mariya_loop_ge [of ns rt 0] by (simp add: applyArtistModifications_def set_set_add)

lemma catalog_voicing:
  "v \<in> snd ` set voicings \<Longrightarrow>
   tensions v \<noteq> [] \<and> (\<forall>t\<in>set (tensions v). 0 \<le> t) \<and> (\<forall>iv\<in>set (intervals v). 0 \<le> iv)"
  by (auto simp: voicings_def)

lemma notesBeforeBass_ge:
  assumes "valid_rand rs" and "v \<in> snd ` set voicings" and "era opts \<noteq> Some E70s"
  shows "\<forall>n\<in>set (fst (notesBeforeBass opts rs k rt v cplx)). rt \<le> n"
proof -
  let ?i = "addIntervals opts rs rt (intervals v) [] k"
  let ?t = "addTensions opts rs rt v
      (nat \<lfloor>cplx * (if era opts = Some Mid80s then 3 else 2)\<rfloor>) (fst ?i) (snd ?i)"
  note c = catalog_voicing [OF assms(2)]
  have "\<forall>n\<in>set (fst ?i). rt \<le> n"
    using assms(3) c by (intro addIntervals_ge) simp_all
  then have t: "\<forall>n\<in>set (fst ?t). rt \<le> n"
    using assms(1) c by (intro addTensions_ge) simp_all
  then have "\<forall>n\<in>set (applyArtistModifications opts (fst ?t) rt). rt \<le> n"
    by (rule applyArtistModifications_ge)
  with t show ?thesis by (simp add: notesBeforeBass_def case_prod_unfold)
qed

lemma bass_below_root: "fst (getBassProbability opts rs k) = 12 \<or> fst (getBassProbability opts rs k) = 24"
  by (simp split: option.splits era.splits)

lemma bass_is_new:
  assumes "valid_rand rs" and "v \<in> snd ` set voicings" and "era opts \<noteq> Some E70s"
  shows "rt - fst (getBassProbability opts rs (snd (notesBeforeBass opts rs k rt v cplx)))
           \<notin> set (fst (notesBeforeBass opts rs k rt v cplx))"
proof
  let ?b = "fst (getBassProbability opts rs (snd (notesBeforeBass opts rs k rt v cplx)))"
  assume "rt - ?b \<in> set (fst (notesBeforeBass opts rs k rt v cplx))"
  with notesBeforeBass_ge [OF assms] have "rt \<le> rt - ?b" by blast
  moreover have "0 < ?b"
    using bass_below_root [of opts rs "snd (notesBeforeBass opts rs k rt v cplx)"]
    by (auto simp del: getBassProbability.simps)
  ultimately show False by simp
qed

lemma bass_draws:
  "{r. 0 \<le> r \<and> r < 1 \<and> fst (getBassProbability opts (\<lambda>_. r) k) = 24} =
     (if era opts = Some E70s then {}
      else if era opts = Some Mid80s then {0..<1 / 2}
      else {0..<3 / 10})"
  by (auto split: option.splits era.splits if_splits)

text \<open>
  One call of the builder, for the voicing \<open>maj9\<close> on the root 60: the intervals, the
  tension 13 and then the bass note 48.
\<close>

lemma voicingNotes_example:
  "notesBeforeBass no_options (\<lambda>_. 1 / 2) 0 60 (snd (voicings ! 0)) (7 / 10)
     = ([60, 64, 67, 71, 74, 73], 2)
   \<and> voicingNotes no_options (\<lambda>_. 1 / 2) 0 60 (snd (voicings ! 0)) (7 / 10)
     = ([60, 64, 67, 71, 74, 73, 48], 3)"
  by (simp add: voicingNotes_def notesBeforeBass_def voicings_def no_options_def set_add_def
      applyArtistModifications_def random_index_def)

text \<open>
  With the era \<open>70s\<close> and draws of 0 the root itself is lowered by an octave when the
  intervals are added, so the pitch \<open>root - 12\<close> is in the set already and adding the
  bass note leaves the set as it is.
\<close>

lemma voicingNotes_example_70s:
  "notesBeforeBass (no_options\<lparr>era := Some E70s\<rparr>) (\<lambda>_. 0) 0 60 (snd (voicings ! 0)) (7 / 10)
     = ([48, 52, 55, 59, 62, 69], 7)
   \<and> voicingNotes (no_options\<lparr>era := Some E70s\<rparr>) (\<lambda>_. 0) 0 60 (snd (voicings ! 0)) (7 / 10)
     = ([48, 52, 55, 59, 62, 69], 7)"
  by (simp add: voicingNotes_def notesBeforeBass_def voicings_def no_options_def set_add_def
      applyArtistModifications_def random_index_def)

text \<open>
  Claim C8. The bass octave is 12 for the era \<open>70s\<close>, and no draw is taken; for
  \<open>mid80s\<close> it is 24 when the draw is below \<open>0.5\<close> and 12 otherwise; for every other
  era, or none, it is 24 when the draw is below \<open>0.3\<close> and 12 otherwise. The
  probabilities of the claim are the lengths of these intervals of a draw that is
  uniform on \<open>[0, 1)\<close>. The builder takes that draw at the tape position reached by the
  artist-specific modifications and adds the one pitch \<open>root - bassOctave\<close> to the note
  set: the set \<open>notesBeforeBass\<close> with that pitch put at its end, unless it holds the
  pitch already. For a catalog voicing, draws in \<open>[0, 1)\<close> and any era but \<open>70s\<close>
  (for which the filter of the driver keeps no voicing) it does not: the set grows by
  exactly that one pitch. The resulting set holds the bass pitch exactly once and no
  pitch twice, and it is what the builder hands to the spreader, whose result is the
  builder's. So the set is not empty, and neither is the chord the builder returns.
\<close>

theorem bass_note_added:
  "getBassProbability opts rs k =
     (if era opts = Some E70s then (12, k)
      else if era opts = Some Mid80s then (if rs k < 1 / 2 then 24 else 12, Suc k)
      else (if rs k < 3 / 10 then 24 else 12, Suc k))
   \<and> {r. 0 \<le> r \<and> r < 1 \<and> fst (getBassProbability opts (\<lambda>_. r) k) = 24} =
       (if era opts = Some E70s then {}
        else if era opts = Some Mid80s then {0..<1 / 2}
        else {0..<3 / 10})
   \<and> voicingNotes opts rs k rt v cplx =
       (set_add (rt - fst (getBassProbability opts rs (snd (notesBeforeBass opts rs k rt v cplx))))
          (fst (notesBeforeBass opts rs k rt v cplx)),
        snd (getBassProbability opts rs (snd (notesBeforeBass opts rs k rt v cplx))))
   \<and> set_add b ns = (if b \<in> set ns then ns else ns @ [b])
   \<and> (valid_rand rs \<and> v \<in> snd ` set voicings \<and> era opts \<noteq> Some E70s \<longrightarrow>
        rt - fst (getBassProbability opts rs (snd (notesBeforeBass opts rs k rt v cplx)))
          \<notin> set (fst (notesBeforeBass opts rs k rt v cplx))
        \<and> fst (voicingNotes opts rs k rt v cplx) =
            fst (notesBeforeBass opts rs k rt v cplx) @
              [rt - fst (getBassProbability opts rs (snd (notesBeforeBass opts rs k rt v cplx)))]
        \<and> length (fst (voicingNotes opts rs k rt v cplx))
            = Suc (length (fst (notesBeforeBass opts rs k rt v cplx))))
   \<and> count_list (fst (voicingNotes opts rs k rt v cplx))
        (rt - fst (getBassProbability opts rs (snd (notesBeforeBass opts rs k rt v cplx)))) = 1
   \<and> distinct (fst (voicingNotes opts rs k rt v cplx))
   \<and> fst (voicingNotes opts rs k rt v cplx) \<noteq> []
   \<and> createRichVoicing opts rs k rt (Some v) cplx position =
       Inr (spreadVoicing opts rs (snd (voicingNotes opts rs k rt v cplx))
              (fst (voicingNotes opts rs k rt v cplx)) position)
   \<and> fst (spreadVoicing opts rs (snd (voicingNotes opts rs k rt v cplx))
              (fst (voicingNotes opts rs k rt v cplx)) position) \<noteq> []
   \<and> voicingNotes no_options (\<lambda>_. 1 / 2) 0 60 (snd (voicings ! 0)) (7 / 10)
       = ([60, 64, 67, 71, 74, 73, 48], 3)"
proof -
  have a: "getBassProbability opts rs k =
     (if era opts = Some E70s then (12, k)
      else if era opts = Some Mid80s then (if rs k < 1 / 2 then 24 else 12, Suc k)
      else (if rs k < 3 / 10 then 24 else 12, Suc k))"
    by (simp split: option.splits era.splits)
  have s: "set_add b ns = (if b \<in> set ns then ns else ns @ [b])"
    by (simp add: set_add_def)
  have w: "valid_rand rs \<and> v \<in> snd ` set voicings \<and> era opts \<noteq> Some E70s \<longrightarrow>
        rt - fst (getBassProbability opts rs (snd (notesBeforeBass opts rs k rt v cplx)))
          \<notin> set (fst (notesBeforeBass opts rs k rt v cplx))
        \<and> fst (voicingNotes opts rs k rt v cplx) =
            fst (notesBeforeBass opts rs k rt v cplx) @
              [rt - fst (getBassProbability opts rs (snd (notesBeforeBass opts rs k rt v cplx)))]
        \<and> length (fst (voicingNotes opts rs k rt v cplx))
            = Suc (length (fst (notesBeforeBass opts rs k rt v cplx)))"
  proof (intro impI, elim conjE)
    assume "valid_rand rs" "v \<in> snd ` set voicings" "era opts \<noteq> Some E70s"
    from bass_is_new [OF this, of rt k cplx]
    show "rt - fst (getBassProbability opts rs (snd (notesBeforeBass opts rs k rt v cplx)))
          \<notin> set (fst (notesBeforeBass opts rs k rt v cplx))
        \<and> fst (voicingNotes opts rs k rt v cplx) =
            fst (notesBeforeBass opts rs k rt v cplx) @
              [rt - fst (getBassProbability opts rs (snd (notesBeforeBass opts rs k rt v cplx)))]
        \<and> length (fst (voicingNotes opts rs k rt v cplx))
            = Suc (length (fst (notesBeforeBass opts rs k rt v cplx)))"
      unfolding voicingNotes_unfold fst_conv by (simp add: set_add_def)
  qed
  have c: "count_list (fst (voicingNotes opts rs k rt v cplx))
        (rt - fst (getBassProbability opts rs (snd (notesBeforeBass opts rs k rt v cplx)))) = 1"
    unfolding voicingNotes_unfold fst_conv
    by (rule count_list_set_add) (rule notesBeforeBass_distinct)
  have n: "fst (spreadVoicing opts rs (snd (voicingNotes opts rs k rt v cplx))
              (fst (voicingNotes opts rs k rt v cplx)) position) \<noteq> []"
    by (rule spreadVoicing_nonempty) (rule voicingNotes_nonempty)
  have x: "voicingNotes no_options (\<lambda>_. 1 / 2) 0 60 (snd (voicings ! 0)) (7 / 10)
       = ([60, 64, 67, 71, 74, 73, 48], 3)"
    using voicingNotes_example by (rule conjunct2)
  show ?thesis
    by (intro conjI)
      (rule a bass_draws voicingNotes_unfold s w c voicingNotes_distinct voicingNotes_nonempty
        createRichVoicing_unfold n x)+
qed

theorem bass_note_added_witness:
  "valid_rand (\<lambda>_. 1 / 2) \<and> snd (voicings ! 0) \<in> snd ` set voicings
   \<and> era no_options \<noteq> Some E70s
   \<and> notesBeforeBass no_options (\<lambda>_. 1 / 2) 0 60 (snd (voicings ! 0)) (7 / 10)
       = ([60, 64, 67, 71, 74, 73], 2)
   \<and> getBassProbability no_options (\<lambda>_. 1 / 2) 2 = (12, 3)
   \<and> (48 :: int) \<notin> set [60, 64, 67, 71, 74, 73]
   \<and> fst (voicingNotes no_options (\<lambda>_. 1 / 2) 0 60 (snd (voicings ! 0)) (7 / 10))
       = [60, 64, 67, 71, 74, 73] @ [48]"
proof -
  have m: "snd (voicings ! 0) \<in> snd ` set voicings" by (simp add: voicings_def)
  have e: "era no_options \<noteq> Some E70s" by (simp add: no_options_def)
  have b: "notesBeforeBass no_options (\<lambda>_. 1 / 2) 0 60 (snd (voicings ! 0)) (7 / 10)
       = ([60, 64, 67, 71, 74, 73], 2)"
    using voicingNotes_example by (rule conjunct1)
  have g: "getBassProbability no_options (\<lambda>_. 1 / 2) 2 = (12, 3)"
    by (simp add: no_options_def)
  from bass_note_added [where opts = no_options and rs = "\<lambda>_. 1 / 2" and k = 0 and rt = 60
      and v = "snd (voicings ! 0)" and cplx = "7 / 10"]
  have "valid_rand (\<lambda>_. 1 / 2 :: real) \<and> snd (voicings ! 0) \<in> snd ` set voicings
        \<and> era no_options \<noteq> Some E70s \<longrightarrow>
        60 - fst (getBassProbability no_options (\<lambda>_. 1 / 2)
                   (snd (notesBeforeBass no_options (\<lambda>_. 1 / 2) 0 60 (snd (voicings ! 0)) (7 / 10))))
          \<notin> set (fst (notesBeforeBass no_options (\<lambda>_. 1 / 2) 0 60 (snd (voicings ! 0)) (7 / 10)))
        \<and> fst (voicingNotes no_options (\<lambda>_. 1 / 2) 0 60 (snd (voicings ! 0)) (7 / 10)) =
            fst (notesBeforeBass no_options (\<lambda>_. 1 / 2) 0 60 (snd (voicings ! 0)) (7 / 10)) @
              [60 - fst (getBassProbability no_options (\<lambda>_. 1 / 2)
                   (snd (notesBeforeBass no_options (\<lambda>_. 1 / 2) 0 60 (snd (voicings ! 0)) (7 / 10))))]"
    by blast
  with valid_rand_half m e
  have "60 - fst (getBassProbability no_options (\<lambda>_. 1 / 2)
                   (snd (notesBeforeBass no_options (\<lambda>_. 1 / 2) 0 60 (snd (voicings ! 0)) (7 / 10))))
          \<notin> set (fst (notesBeforeBass no_options (\<lambda>_. 1 / 2) 0 60 (snd (voicings ! 0)) (7 / 10)))
        \<and> fst (voicingNotes no_options (\<lambda>_. 1 / 2) 0 60 (snd (voicings ! 0)) (7 / 10)) =
            fst (notesBeforeBass no_options (\<lambda>_. 1 / 2) 0 60 (snd (voicings ! 0)) (7 / 10)) @
              [60 - fst (getBassProbability no_options (\<lambda>_. 1 / 2)
                   (snd (notesBeforeBass no_options (\<lambda>_. 1 / 2) 0 60 (snd (voicings ! 0)) (7 / 10))))]"
    by blast
  then have r: "(48 :: int) \<notin> set [60, 64, 67, 71, 74, 73]
      \<and> fst (voicingNotes no_options (\<lambda>_. 1 / 2) 0 60 (snd (voicings ! 0)) (7 / 10))
         = [60, 64, 67, 71, 74, 73] @ [48]"
    unfolding b fst_conv snd_conv g by simp
  show ?thesis using valid_rand_half m e b g r by blast
qed

section \<open>The ballad scenario\<close>

lemma spacingFrom_nth:
  "i < length xs \<Longrightarrow>
   spacingFrom m p xs ! i =
     (if xs ! i - (if i = 0 then p else spacingFrom m p xs ! (i - 1)) < m
      then xs ! i + 12 else xs ! i)"
proof (induction xs arbitrary: p i)
  case Nil
  then show ?case by simp
next
  case (Cons x xs)
  show ?case
  proof (cases i)
    case 0
    then show ?thesis by simp
  next
    case (Suc j)
    then have j: "j < length xs" using Cons.prems by simp
    show ?thesis
      using Cons.IH [OF j, of "x + 12"] Cons.IH [OF j, of x] Suc
      by (cases j) auto
  qed
qed

lemma enforceSpacing_nth:
  "Suc i < length xs \<Longrightarrow>
   enforceSpacing m xs ! Suc i =
     (if xs ! Suc i - enforceSpacing m xs ! i < m then xs ! Suc i + 12 else xs ! Suc i)"
proof (cases xs)
  case Nil
  assume "Suc i < length xs"
  with Nil show ?thesis by simp
next
  case (Cons x ys)
  assume "Suc i < length xs"
  then have i: "i < length ys" using Cons by simp
  show ?thesis using spacingFrom_nth [OF i, of m x] Cons by (cases i) auto
qed

lemma enforceSpacing_hd: "xs \<noteq> [] \<Longrightarrow> enforceSpacing m xs ! 0 = xs ! 0"
  by (cases xs) simp_all

lemma generateTrack_built:
  assumes tr: "generateTrack opts rs = Inr track" and j: "j < 8"
  shows "\<exists>progression v.
      selectProgression (active_style opts) (rs 1) = Some progression
      \<and> selectVoicing opts (rs (drawn (track ! j))) = Some v
      \<and> built (track ! j) =
          fst (spreadVoicing opts rs
                 (snd (voicingNotes opts rs (Suc (drawn (track ! j)))
                         (60 + roots progression ! (j mod length (roots progression))) v
                         (tensionAt 8 j (rs (2 + j)) *
                            (if p_complexity progression = 0 then 1
                             else p_complexity progression))))
                 (fst (voicingNotes opts rs (Suc (drawn (track ! j)))
                         (60 + roots progression ! (j mod length (roots progression))) v
                         (tensionAt 8 j (rs (2 + j)) *
                            (if p_complexity progression = 0 then 1
                             else p_complexity progression))))
                 j)"
proof -
  from generateTrack_step(1) [OF tr j] obtain progression k1 where
    p: "selectProgression (active_style opts) (rs 1) = Some progression"
    and c: "createRichVoicing opts rs (Suc (drawn (track ! j)))
              (60 + roots progression ! (j mod length (roots progression)))
              (selectVoicing opts (rs (drawn (track ! j))))
              (tensionAt 8 j (rs (2 + j)) *
                 (if p_complexity progression = 0 then 1 else p_complexity progression))
              j = Inr (built (track ! j), k1)"
    by (elim exE conjE)
  show ?thesis
  proof (cases "selectVoicing opts (rs (drawn (track ! j)))")
    case None
    with c show ?thesis by (simp add: createRichVoicing_def)
  next
    case (Some v)
    from c [unfolded Some createRichVoicing_unfold]
    have "built (track ! j) =
          fst (spreadVoicing opts rs
                 (snd (voicingNotes opts rs (Suc (drawn (track ! j)))
                         (60 + roots progression ! (j mod length (roots progression))) v
                         (tensionAt 8 j (rs (2 + j)) *
                            (if p_complexity progression = 0 then 1
                             else p_complexity progression))))
                 (fst (voicingNotes opts rs (Suc (drawn (track ! j)))
                         (60 + roots progression ! (j mod length (roots progression))) v
                         (tensionAt 8 j (rs (2 + j)) *
                            (if p_complexity progression = 0 then 1
                             else p_complexity progression))))
                 j)"
      by simp
    with p Some show ?thesis by blast
  qed
qed

text \<open>
  The ballad run in which every draw is \<open>0.5\<close>: every chord starts on the 2-second
  grid, and the encoder of the examples accepts the track.
\<close>

lemma select_half_ballad:
  "selectVoicing (no_options\<lparr>style := Some Ballad\<rparr>) (1 / 2) = Some (snd (voicings ! 3))"
  by (simp add: selectVoicing_def voicingKeys_no_options index_def random_index_def voicings_def)

lemma run_example_ballad:
  "\<exists>track. generateTrack (no_options\<lparr>style := Some Ballad\<rparr>) (\<lambda>_. 1 / 2) = Inr track
    \<and> map (\<lambda>c. time (hd (events c))) track = [0, 2, 4, 6, 8, 10, 12, 14]
    \<and> sample_encoder (run_tempo (no_options\<lparr>style := Some Ballad\<rparr>) (\<lambda>_. 1 / 2))
          (concat (map events track))
        = Inr (map nat (concat (map smoothed track)))"
proof -
  have p: "selectProgression Ballad (1 / 2) = Some (progressionTemplates ! 3)"
    by (simp add: selectProgression_def validTemplates_cases index_def random_index_def)
  have e: "(8::nat) = Suc (Suc (Suc (Suc (Suc (Suc (Suc (Suc 0)))))))" by simp
  show ?thesis
    unfolding generateTrack_def arc_half
    apply (simp add: active_style_def no_options_def p del: progressionLoop.simps)
    apply (subst e)
    apply (simp add: select_half_ballad [unfolded no_options_def, simplified] progressionTemplates_def
        voicings_def progressionStep_def createRichVoicing_def notesBeforeBass_def
        voicingNotes_def set_add_def applyArtistModifications_def random_index_def
        spreadVoicing_def beforeClamp_def minSpacing_def doubling_def eraAdjust_def
        artistAdjust_def positionAdjust_def clampRange_def max_of_def
        voiceLeading_def smoothNote_def closest_def applySwing_def active_style_def
        no_options_def sample_encoder_def run_tempo_def)
    done
qed

text \<open>
  Claim C7. With the configuration \<open>{ style: 'ballad' }\<close> the loop completes in every
  run (the voicing filter keeps the whole catalog), with 8 chords that all have notes,
  and every velocity, multiplied back by 127, lies in \<open>[60, 85]\<close>. The tempo handed to
  the encoder is \<open>65 + 15 r\<close> for the first draw \<open>r\<close>, which lies in \<open>[65, 80]\<close>; the run
  returns a piece exactly when the encoder accepts the track, and the piece then has
  that tempo. Each chord is the result of the spreader, which runs its spacing pass
  with the threshold 3: the pass keeps the lowest note and, walking upwards, raises a
  note by an octave when it is less than 3 semitones above its predecessor as the pass
  has left it.
\<close>

theorem ballad_scenario:
  assumes "valid_rand rs"
  shows "\<exists>track.
      generateTrack (no_options\<lparr>style := Some Ballad\<rparr>) rs = Inr track
      \<and> length track = 8
      \<and> generateMidiFile toArray (no_options\<lparr>style := Some Ballad\<rparr>) rs now =
          (case toArray (65 + rs 0 * 15) (concat (map events track)) of
             Inl e \<Rightarrow> Inl e
           | Inr bytes \<Rightarrow>
               Inr \<lparr>data = bytes, tempo = 65 + rs 0 * 15,
                    name = piece_name (no_options\<lparr>style := Some Ballad\<rparr>) now\<rparr>)
      \<and> 65 \<le> 65 + rs 0 * 15 \<and> 65 + rs 0 * 15 \<le> 80
      \<and> (\<forall>p. generateMidiFile toArray (no_options\<lparr>style := Some Ballad\<rparr>) rs now = Inr p
            \<longrightarrow> tempo p = 65 + rs 0 * 15 \<and> 65 \<le> tempo p \<and> tempo p \<le> 80)
      \<and> (\<forall>c\<in>set track. events c \<noteq> []
            \<and> (\<forall>ev\<in>set (events c). 60 \<le> velocity ev * 127 \<and> velocity ev * 127 \<le> 85))
      \<and> (\<forall>j<8. \<exists>progression v.
            selectProgression Ballad (rs 1) = Some progression
            \<and> selectVoicing (no_options\<lparr>style := Some Ballad\<rparr>) (rs (drawn (track ! j))) = Some v
            \<and> built (track ! j) =
                fst (spreadVoicing (no_options\<lparr>style := Some Ballad\<rparr>) rs
                  (snd (voicingNotes (no_options\<lparr>style := Some Ballad\<rparr>) rs
                          (Suc (drawn (track ! j)))
                          (60 + roots progression ! (j mod length (roots progression))) v
                          (tensionAt 8 j (rs (2 + j)) *
                             (if p_complexity progression = 0 then 1
                              else p_complexity progression))))
                  (fst (voicingNotes (no_options\<lparr>style := Some Ballad\<rparr>) rs
                          (Suc (drawn (track ! j)))
                          (60 + roots progression ! (j mod length (roots progression))) v
                          (tensionAt 8 j (rs (2 + j)) *
                             (if p_complexity progression = 0 then 1
                              else p_complexity progression))))
                  j))
      \<and> minSpacing (no_options\<lparr>style := Some Ballad\<rparr>) = 3
      \<and> (\<forall>k ns position.
            spreadVoicing (no_options\<lparr>style := Some Ballad\<rparr>) rs k ns position =
              (case doubling (no_options\<lparr>style := Some Ballad\<rparr>) rs k
                      (enforceSpacing 3 (sort ns)) of
                 (spread2, k2) \<Rightarrow>
                   (case positionAdjust rs k2 (map clampRange spread2) position of
                      (spread6, k6) \<Rightarrow> (sort spread6, k6))))
      \<and> (\<forall>xs. xs \<noteq> [] \<longrightarrow> enforceSpacing 3 xs ! 0 = xs ! 0)
      \<and> (\<forall>xs i. Suc i < length xs \<longrightarrow>
            enforceSpacing 3 xs ! Suc i =
              (if xs ! Suc i - enforceSpacing 3 xs ! i < 3
               then xs ! Suc i + 12 else xs ! Suc i))"
proof -
  let ?b = "no_options\<lparr>style := Some Ballad\<rparr>"
  have s: "active_style ?b = Ballad" by (simp add: active_style_def)
  have k: "voicingKeys ?b \<noteq> []" by (simp add: voicingKeys_no_options)
  from generateTrack_total [OF assms k]
  obtain track where tr: "generateTrack ?b rs = Inr track"
    and l: "length track = 8"
    and c: "list_all (\<lambda>c. chord_ok (styleSettings Ballad) (events c)) track"
    unfolding s by (elim exE conjE)
  have rt: "run_tempo ?b rs = 65 + rs 0 * 15"
    by (simp add: run_tempo_def s)
  have g: "generateMidiFile toArray ?b rs now =
          (case toArray (65 + rs 0 * 15) (concat (map events track)) of
             Inl e \<Rightarrow> Inl e
           | Inr bytes \<Rightarrow>
               Inr \<lparr>data = bytes, tempo = 65 + rs 0 * 15, name = piece_name ?b now\<rparr>)"
    unfolding generateMidiFile_def tr rt by simp
  have r: "0 \<le> rs 0" "rs 0 < 1" using assms by (simp_all add: valid_rand_def)
  have t: "65 \<le> 65 + rs 0 * 15" "65 + rs 0 * 15 \<le> 80" using r by simp_all
  have gp: "tempo p = 65 + rs 0 * 15 \<and> 65 \<le> tempo p \<and> tempo p \<le> 80"
    if "generateMidiFile toArray ?b rs now = Inr p" for p
    using that t unfolding g by (auto split: sum.splits)
  have v: "\<forall>c\<in>set track. events c \<noteq> []
            \<and> (\<forall>ev\<in>set (events c). 60 \<le> velocity ev * 127 \<and> velocity ev * 127 \<le> 85)"
    using c by (simp add: list_all_iff chord_ok_def)
  have m: "minSpacing ?b = 3" by (simp add: minSpacing_def no_options_def)
  have sp: "spreadVoicing ?b rs k ns position =
              (case doubling ?b rs k (enforceSpacing 3 (sort ns)) of
                 (spread2, k2) \<Rightarrow>
                   (case positionAdjust rs k2 (map clampRange spread2) position of
                      (spread6, k6) \<Rightarrow> (sort spread6, k6)))" for k ns position
    unfolding spreadVoicing_def beforeClamp_def m
    by (simp add: artistAdjust_def eraAdjust_def no_options_def case_prod_unfold)
  show ?thesis
  proof (intro exI [of _ track] conjI allI impI)
    show "generateTrack ?b rs = Inr track" by (rule tr)
    show "generateMidiFile toArray ?b rs now =
          (case toArray (65 + rs 0 * 15) (concat (map events track)) of
             Inl e \<Rightarrow> Inl e
           | Inr bytes \<Rightarrow>
               Inr \<lparr>data = bytes, tempo = 65 + rs 0 * 15, name = piece_name ?b now\<rparr>)"
      by (rule g)
  next
    fix p assume "generateMidiFile toArray ?b rs now = Inr p"
    from gp [OF this] show "tempo p = 65 + rs 0 * 15" "65 \<le> tempo p" "tempo p \<le> 80"
      by simp_all
  next
    fix j :: nat assume "j < 8"
    from generateTrack_built [OF tr this] show "\<exists>progression v.
            selectProgression Ballad (rs 1) = Some progression
            \<and> selectVoicing ?b (rs (drawn (track ! j))) = Some v
            \<and> built (track ! j) =
                fst (spreadVoicing ?b rs
                  (snd (voicingNotes ?b rs (Suc (drawn (track ! j)))
                          (60 + roots progression ! (j mod length (roots progression))) v
                          (tensionAt 8 j (rs (2 + j)) *
                             (if p_complexity progression = 0 then 1
                              else p_complexity progression))))
                  (fst (voicingNotes ?b rs (Suc (drawn (track ! j)))
                          (60 + roots progression ! (j mod length (roots progression))) v
                          (tensionAt 8 j (rs (2 + j)) *
                             (if p_complexity progression = 0 then 1
                              else p_complexity progression))))
                  j)"
      unfolding s .
  qed (fact t l v m sp | erule enforceSpacing_hd | erule enforceSpacing_nth)+
qed

theorem ballad_scenario_witness:
  "valid_rand (\<lambda>_. 1 / 2)
   \<and> (\<exists>track p. generateTrack (no_options\<lparr>style := Some Ballad\<rparr>) (\<lambda>_. 1 / 2) = Inr track
        \<and> length track = 8
        \<and> generateMidiFile sample_encoder (no_options\<lparr>style := Some Ballad\<rparr>) (\<lambda>_. 1 / 2) 0
            = Inr p
        \<and> data p = map nat (concat (map smoothed track))
        \<and> name p = ''citypop-standard-ballad-0''
        \<and> tempo p = 145 / 2 \<and> 65 \<le> tempo p \<and> tempo p \<le> 80)
   \<and> enforceSpacing 3 [60, 62, 66] = [60, 74, 78]"
proof -
  let ?b = "no_options\<lparr>style := Some Ballad\<rparr>"
  have n: "piece_name ?b 0 = ''citypop-standard-ballad-0''"
    by (simp add: piece_name_def no_options_def nat_to_string_0)
  have rt: "run_tempo ?b (\<lambda>_. 1 / 2) = 145 / 2"
    by (simp add: run_tempo_def active_style_def)
  from run_example_ballad obtain track' where
    tr': "generateTrack ?b (\<lambda>_. 1 / 2) = Inr track'"
    and enc: "sample_encoder (145 / 2) (concat (map events track'))
        = Inr (map nat (concat (map smoothed track')))"
    unfolding rt by (elim exE conjE)
  from ballad_scenario [OF valid_rand_half, of sample_encoder 0]
  obtain track where tr: "generateTrack ?b (\<lambda>_. 1 / 2) = Inr track"
    and l: "length track = 8"
    and g: "generateMidiFile sample_encoder ?b (\<lambda>_. 1 / 2) 0 =
          (case sample_encoder (65 + 1 / 2 * 15) (concat (map events track)) of
             Inl e \<Rightarrow> Inl e
           | Inr bytes \<Rightarrow>
               Inr \<lparr>data = bytes, tempo = 65 + 1 / 2 * 15, name = piece_name ?b 0\<rparr>)"
    and i: "\<forall>p. generateMidiFile sample_encoder ?b (\<lambda>_. 1 / 2) 0 = Inr p
            \<longrightarrow> tempo p = 65 + 1 / 2 * 15 \<and> 65 \<le> tempo p \<and> tempo p \<le> 80"
    by (elim exE conjE)
  have e: "track' = track" using tr tr' by simp
  have h: "(65 + 1 / 2 * 15 :: real) = 145 / 2" by simp
  have g': "generateMidiFile sample_encoder ?b (\<lambda>_. 1 / 2) 0 =
      Inr \<lparr>data = map nat (concat (map smoothed track)), tempo = 145 / 2,
           name = ''citypop-standard-ballad-0''\<rparr>"
    using g enc unfolding e h n by simp
  from i [rule_format, OF g']
  have "65 \<le> tempo \<lparr>data = map nat (concat (map smoothed track)), tempo = 145 / 2,
           name = ''citypop-standard-ballad-0''\<rparr>
     \<and> tempo \<lparr>data = map nat (concat (map smoothed track)), tempo = 145 / 2,
           name = ''citypop-standard-ballad-0''\<rparr> \<le> 80" by simp
  with tr l g' have "\<exists>track p. generateTrack ?b (\<lambda>_. 1 / 2) = Inr track
        \<and> length track = 8
        \<and> generateMidiFile sample_encoder ?b (\<lambda>_. 1 / 2) 0 = Inr p
        \<and> data p = map nat (concat (map smoothed track))
        \<and> name p = ''citypop-standard-ballad-0''
        \<and> tempo p = 145 / 2 \<and> 65 \<le> tempo p \<and> tempo p \<le> 80"
    by simp
  moreover have "enforceSpacing 3 [60, 62, 66] = [60, 74, 78]" by simp
  ultimately show ?thesis using valid_rand_half by blast
qed

section \<open>The range of the spread voicing\<close>

















section \<open>The suggested file name\<close>

lemma decimal_digits_value:
  "foldl (\<lambda>a d. 10 * a + d) 0 (decimal_digits n) = n \<and> list_all (\<lambda>d. d < 10) (decimal_digits n)"
proof (induction n rule: decimal_digits.induct)
  case (1 n)
  show ?case
  proof (cases "n < 10")
    case True
    then show ?thesis by (subst (1 2) decimal_digits.simps) simp
  next
    case False
    then show ?thesis using 1 by (subst (1 2) decimal_digits.simps) simp
  qed
qed

lemma run_tempo_positive:
  assumes "valid_rand rs"
  shows "65 \<le> run_tempo opts rs"
proof -
  have "0 \<le> rs 0" "rs 0 < 1" using assms by (simp_all add: valid_rand_def)
  then show ?thesis unfolding run_tempo_def by (cases "active_style opts") simp_all
qed

lemma math_round_positive: "65 \<le> x \<Longrightarrow> 65 \<le> math_round x"
  unfolding math_round_def by (simp add: le_floor_iff)

lemma generateAndDownloadMidi_unfold:
  "generateAndDownloadMidi toArray opts rs now =
     (case generateTrack opts rs of
        Inl e \<Rightarrow> Inl GenerationFailed
      | Inr track \<Rightarrow>
          (case toArray (run_tempo opts rs) (concat (map events track)) of
             Inl e \<Rightarrow> Inl GenerationFailed
           | Inr bytes \<Rightarrow>
               Inr \<lparr>url = bytes,
                    filename = ''citypop-''
                     @ (case era opts of None \<Rightarrow> ''standard'' | Some e \<Rightarrow> era_name e) @ ''-''
                     @ (case style opts of None \<Rightarrow> ''uptempo'' | Some s \<Rightarrow> style_name s) @ ''-''
                     @ nat_to_string now @ ''-''
                     @ number_to_string (math_round (run_tempo opts rs)) @ ''bpm.mid''\<rparr>))"
  by (simp add: generateAndDownloadMidi_def generateMidiFile_def piece_name_def
      split: sum.splits)

lemma generateAndDownloadMidi_gene_unfold:
  "generateAndDownloadMidi_gene toArray rs now =
     (case generateTrack_gene rs of
        Inl e \<Rightarrow> Inl GenerationFailed
      | Inr track \<Rightarrow>
          (case toArray (72 + rs 0 * 30) track of
             Inl e \<Rightarrow> Inl GenerationFailed
           | Inr bytes \<Rightarrow>
               Inr \<lparr>url = bytes,
                    filename = ''citypop-progression-'' @ nat_to_string now @ ''-''
                     @ number_to_string (math_round (72 + rs 0 * 30)) @ ''bpm.mid''\<rparr>))"
  by (simp add: generateAndDownloadMidi_gene_def generateMidiFile_gene_def split: sum.splits)

text \<open>For draws in \<open>[0, 1)\<close> the loop of the earlier generator completes.\<close>

lemma selectVoicing_gene_some:
  assumes "0 \<le> r" "r < 1"
  shows "\<exists>v. selectVoicing_gene r = Some v"
proof -
  let ?i = "random_index r (length (map fst voicings_gene))"
  have l: "length (map fst voicings_gene) = 6" by (simp add: voicings_gene_def)
  have i: "?i < length (map fst voicings_gene)"
    using assms unfolding l by (intro random_index_less) simp_all
  then have "map fst voicings_gene ! ?i \<in> fst ` set voicings_gene"
    using nth_mem [OF i] by simp
  then obtain v where "map_of voicings_gene (map fst voicings_gene ! ?i) = Some v"
    by (metis map_of_eq_None_iff not_Some_eq)
  then show ?thesis using i by (simp add: selectVoicing_gene_def index_def)
qed

lemma progressionLoop_gene_total:
  assumes "valid_rand rs"
  shows "\<exists>track' k'.
     progressionLoop_gene rs progression tensionArc n i t prevNotes track k = Inr (track', k')"
proof (induction n arbitrary: i t prevNotes track k)
  case 0
  show ?case by simp
next
  case (Suc n)
  have "0 \<le> rs k" "rs k < 1" using assms by (simp_all add: valid_rand_def)
  then obtain v where v: "selectVoicing_gene (rs k) = Some v"
    using selectVoicing_gene_some by blast
  obtain ns k1 where c: "createRichVoicing_gene rs (Suc k)
             (60 + g_roots progression ! (i mod length (g_roots progression)))
             (Some v) (tensionArc ! i) i = Inr (ns, k1)"
    by (cases "createRichVoicing_gene rs (Suc k)
             (60 + g_roots progression ! (i mod length (g_roots progression)))
             (Some v) (tensionArc ! i) i")
      (auto simp: createRichVoicing_gene_def case_prod_unfold)
  obtain evs k3 where a: "addNotes_gene rs (Suc k1) (t + (rs k1 - 5 / 10) * (2 / 100))
                  (voiceLeading prevNotes ns) = (evs, k3)"
    by (cases "addNotes_gene rs (Suc k1) (t + (rs k1 - 5 / 10) * (2 / 100))
                  (voiceLeading prevNotes ns)")
  from Suc [of "Suc i" "t + 2" "voiceLeading prevNotes ns" "track @ evs" k3]
  show ?case using v c a by simp
qed

lemma generateTrack_gene_total:
  assumes "valid_rand rs"
  shows "\<exists>track. generateTrack_gene rs = Inr track"
proof -
  have r: "0 \<le> rs 1" "rs 1 < 1" using assms by (simp_all add: valid_rand_def)
  have l: "length progressionTemplates_gene = 4" by (simp add: progressionTemplates_gene_def)
  have "random_index (rs 1) (length progressionTemplates_gene)
          < length progressionTemplates_gene"
    using r unfolding l by (intro random_index_less) simp_all
  then obtain progression where p:
    "index progressionTemplates_gene (random_index (rs 1) (length progressionTemplates_gene))
       = Some progression"
    by (simp add: index_def)
  obtain track k' where
    "progressionLoop_gene rs progression (fst (generateTensionArc 8 rs 2)) 8 0 0 [] []
       (snd (generateTensionArc 8 rs 2)) = Inr (track, k')"
    using progressionLoop_gene_total [OF assms] by blast
  then show ?thesis unfolding generateTrack_gene_def p by (simp add: case_prod_unfold)
qed

text \<open>
  The run of the earlier generator in which every draw is \<open>0.5\<close>; its first chord is
  \<open>maj9_13\<close> on the root 63 with the bass note 51.
\<close>

lemma run_example_gene:
  "\<exists>track. generateTrack_gene (\<lambda>_. 1 / 2) = Inr track
     \<and> sample_encoder 87 track = Inr (map (\<lambda>ev. nat (midi ev)) track)
     \<and> map midi (take 7 track) = [51, 63, 67, 70, 74, 77, 84]"
proof -
  have e: "(8::nat) = Suc (Suc (Suc (Suc (Suc (Suc (Suc (Suc 0)))))))" by simp
  have s: "selectVoicing_gene (1 / 2) = Some (snd (voicings_gene ! 3))"
    by (simp add: selectVoicing_gene_def index_def random_index_def voicings_gene_def)
  show ?thesis
    unfolding generateTrack_gene_def arc_half
    apply (simp add: progressionTemplates_gene_def index_def random_index_def
        del: progressionLoop_gene.simps)
    apply (subst e)
    apply (simp add: s voicings_gene_def createRichVoicing_gene_def addAlteration_gene_def
        spreadVoicing_gene_def set_add_def random_index_def clampRange_def
        voiceLeading_def smoothNote_def closest_def sample_encoder_def numeral_2_eq_2)
    done
qed

text \<open>
  Claim C9 says that the exposed entry point suggests a file name of the form
  \<open>citypop-<era-or-standard>-<style-or-uptempo>-<uniqueness token>-<rounded tempo>bpm.mid\<close>.
  The entry point of \<open>sailormoongene.ts\<close>, which the claim cites, suggests another
  name: at the clock value 0, with every draw \<open>0.5\<close>, it returns
  \<open>citypop-progression-0-87bpm.mid\<close>, which has no era and no style field; no choice of
  the four fields gives that name.
\<close>

theorem filename_counterexample:
  "(\<exists>bytes. generateAndDownloadMidi_gene sample_encoder (\<lambda>_. 1 / 2) 0 =
       Inr \<lparr>url = bytes, filename = ''citypop-progression-0-87bpm.mid''\<rparr>)
   \<and> (\<forall>e s t m. ''citypop-progression-0-87bpm.mid''
         \<noteq> ''citypop-'' @ e @ ''-'' @ s @ ''-'' @ t @ ''-'' @ m @ ''bpm.mid'')"
proof (intro conjI allI)
  from run_example_gene obtain track where
    tr: "generateTrack_gene (\<lambda>_. 1 / 2) = Inr track"
    and enc: "sample_encoder 87 track = Inr (map (\<lambda>ev. nat (midi ev)) track)"
    by (elim exE conjE)
  have t: "(72 + 1 / 2 * 30 :: real) = 87" by simp
  have n: "number_to_string (math_round 87) = ''87''"
    by (simp add: math_round_def number_to_string_def nat_to_string_def
        decimal_digits.simps digit_char_def)
  have "generateAndDownloadMidi_gene sample_encoder (\<lambda>_. 1 / 2) 0 =
       Inr \<lparr>url = map (\<lambda>ev. nat (midi ev)) track,
            filename = ''citypop-progression-0-87bpm.mid''\<rparr>"
    unfolding generateAndDownloadMidi_gene_unfold tr t
    by (simp add: enc n nat_to_string_0)
  then show "\<exists>bytes. generateAndDownloadMidi_gene sample_encoder (\<lambda>_. 1 / 2) 0 =
       Inr \<lparr>url = bytes, filename = ''citypop-progression-0-87bpm.mid''\<rparr>"
    by blast
next
  fix e s t m :: string
  show "''citypop-progression-0-87bpm.mid''
         \<noteq> ''citypop-'' @ e @ ''-'' @ s @ ''-'' @ t @ ''-'' @ m @ ''bpm.mid''"
  proof
    assume "''citypop-progression-0-87bpm.mid''
         = ''citypop-'' @ e @ ''-'' @ s @ ''-'' @ t @ ''-'' @ m @ ''bpm.mid''"
    then have "length (filter (\<lambda>c. c = CHR ''-'') ''citypop-progression-0-87bpm.mid'')
         = length (filter (\<lambda>c. c = CHR ''-'')
             (''citypop-'' @ e @ ''-'' @ s @ ''-'' @ t @ ''-'' @ m @ ''bpm.mid''))"
      by (rule arg_cong)
    then show False by simp
  qed
qed

text \<open>
  Claim C9 as amended. Neither entry point returns in every run: each raises its
  generic failure when the generation or the encoder throws, and returns a descriptor
  otherwise. When the entry point with options returns, the file name is \<open>citypop-\<close>,
  the era or \<open>standard\<close>, \<open>-\<close>, the style or \<open>uptempo\<close>, \<open>-\<close>, the clock value in
  decimal, \<open>-\<close>, the tempo rounded to the nearest integer in decimal, and \<open>bpm.mid\<close>.
  When the entry point of the earlier generator returns, the file name is
  \<open>citypop-progression-\<close>, the clock value in decimal, \<open>-\<close>, the rounded tempo in
  decimal, and \<open>bpm.mid\<close>. For draws in \<open>[0, 1)\<close> the rounded tempo is at least 65 and
  is printed without a sign; the generation with options completes exactly when the
  filter keeps a voicing, and the earlier generation always completes.
\<close>

theorem filename_form:
  "generateAndDownloadMidi toArray opts rs now =
     (case generateTrack opts rs of
        Inl e \<Rightarrow> Inl GenerationFailed
      | Inr track \<Rightarrow>
          (case toArray (run_tempo opts rs) (concat (map events track)) of
             Inl e \<Rightarrow> Inl GenerationFailed
           | Inr bytes \<Rightarrow>
               Inr \<lparr>url = bytes,
                    filename = ''citypop-''
                     @ (case era opts of None \<Rightarrow> ''standard'' | Some e \<Rightarrow> era_name e) @ ''-''
                     @ (case style opts of None \<Rightarrow> ''uptempo'' | Some s \<Rightarrow> style_name s) @ ''-''
                     @ nat_to_string now @ ''-''
                     @ number_to_string (math_round (run_tempo opts rs)) @ ''bpm.mid''\<rparr>))
   \<and> (generateAndDownloadMidi toArray opts rs now = Inr d \<longrightarrow>
        filename d = ''citypop-''
                     @ (case era opts of None \<Rightarrow> ''standard'' | Some e \<Rightarrow> era_name e) @ ''-''
                     @ (case style opts of None \<Rightarrow> ''uptempo'' | Some s \<Rightarrow> style_name s) @ ''-''
                     @ nat_to_string now @ ''-''
                     @ number_to_string (math_round (run_tempo opts rs)) @ ''bpm.mid'')
   \<and> generateAndDownloadMidi_gene toArray rs now =
     (case generateTrack_gene rs of
        Inl e \<Rightarrow> Inl GenerationFailed
      | Inr track \<Rightarrow>
          (case toArray (72 + rs 0 * 30) track of
             Inl e \<Rightarrow> Inl GenerationFailed
           | Inr bytes \<Rightarrow>
               Inr \<lparr>url = bytes,
                    filename = ''citypop-progression-'' @ nat_to_string now @ ''-''
                     @ number_to_string (math_round (72 + rs 0 * 30)) @ ''bpm.mid''\<rparr>))
   \<and> (generateAndDownloadMidi_gene toArray rs now = Inr d' \<longrightarrow>
        filename d' = ''citypop-progression-'' @ nat_to_string now @ ''-''
                     @ number_to_string (math_round (72 + rs 0 * 30)) @ ''bpm.mid'')
   \<and> (valid_rand rs \<longrightarrow>
        65 \<le> math_round (run_tempo opts rs)
        \<and> number_to_string (math_round (run_tempo opts rs))
            = nat_to_string (nat (math_round (run_tempo opts rs)))
        \<and> 65 \<le> math_round (72 + rs 0 * 30)
        \<and> number_to_string (math_round (72 + rs 0 * 30))
            = nat_to_string (nat (math_round (72 + rs 0 * 30)))
        \<and> (\<exists>track. generateTrack_gene rs = Inr track)
        \<and> (voicingKeys opts \<noteq> [] \<longrightarrow> (\<exists>track. generateTrack opts rs = Inr track)))
   \<and> (voicingKeys opts = [] \<longrightarrow>
        generateAndDownloadMidi toArray opts rs now = Inl GenerationFailed)
   \<and> nat_to_string n = map digit_char (decimal_digits n)
   \<and> foldl (\<lambda>a d. 10 * a + d) 0 (decimal_digits n) = n
   \<and> list_all (\<lambda>d. d < 10) (decimal_digits n)
   \<and> math_round x = \<lfloor>x + 1 / 2\<rfloor>"
proof -
  have f: "filename d = ''citypop-''
                     @ (case era opts of None \<Rightarrow> ''standard'' | Some e \<Rightarrow> era_name e) @ ''-''
                     @ (case style opts of None \<Rightarrow> ''uptempo'' | Some s \<Rightarrow> style_name s) @ ''-''
                     @ nat_to_string now @ ''-''
                     @ number_to_string (math_round (run_tempo opts rs)) @ ''bpm.mid''"
    if "generateAndDownloadMidi toArray opts rs now = Inr d"
    using that unfolding generateAndDownloadMidi_unfold by (auto split: sum.splits)
  have g: "filename d' = ''citypop-progression-'' @ nat_to_string now @ ''-''
                     @ number_to_string (math_round (72 + rs 0 * 30)) @ ''bpm.mid''"
    if "generateAndDownloadMidi_gene toArray rs now = Inr d'"
    using that unfolding generateAndDownloadMidi_gene_unfold by (auto split: sum.splits)
  have v: "65 \<le> math_round (run_tempo opts rs)
        \<and> number_to_string (math_round (run_tempo opts rs))
            = nat_to_string (nat (math_round (run_tempo opts rs)))
        \<and> 65 \<le> math_round (72 + rs 0 * 30)
        \<and> number_to_string (math_round (72 + rs 0 * 30))
            = nat_to_string (nat (math_round (72 + rs 0 * 30)))
        \<and> (\<exists>track. generateTrack_gene rs = Inr track)
        \<and> (voicingKeys opts \<noteq> [] \<longrightarrow> (\<exists>track. generateTrack opts rs = Inr track))"
    if vr: "valid_rand rs"
  proof -
    have a: "65 \<le> math_round (run_tempo opts rs)"
      by (rule math_round_positive) (rule run_tempo_positive [OF vr])
    have "0 \<le> rs 0" using vr by (simp add: valid_rand_def)
    then have "(65 :: real) \<le> 72 + rs 0 * 30" by simp
    then have b: "65 \<le> math_round (72 + rs 0 * 30)" by (rule math_round_positive)
    have t: "voicingKeys opts \<noteq> [] \<longrightarrow> (\<exists>track. generateTrack opts rs = Inr track)"
      using generateTrack_total [OF vr] by blast
    show ?thesis
      using a b t generateTrack_gene_total [OF vr] by (simp add: number_to_string_def)
  qed
  have e: "voicingKeys opts = [] \<longrightarrow>
        generateAndDownloadMidi toArray opts rs now = Inl GenerationFailed"
    using generateTrack_empty [of opts rs]
    by (simp add: generateAndDownloadMidi_unfold)
  have d: "foldl (\<lambda>a d. 10 * a + d) 0 (decimal_digits n) = n"
    "list_all (\<lambda>d. d < 10) (decimal_digits n)"
    using decimal_digits_value [of n] by simp_all
  show ?thesis
    by (intro conjI)
      (rule generateAndDownloadMidi_unfold generateAndDownloadMidi_gene_unfold
        impI [OF f] impI [OF g] impI [OF v] e nat_to_string_def d math_round_def
       | assumption)+
qed

theorem filename_form_witness:
  "valid_rand (\<lambda>_. 1 / 2) \<and> voicingKeys no_options \<noteq> []
   \<and> (\<exists>bytes. generateAndDownloadMidi sample_encoder no_options (\<lambda>_. 1 / 2) 1700000000000 =
        Inr \<lparr>url = bytes, filename = ''citypop-standard-uptempo-1700000000000-128bpm.mid''\<rparr>)
   \<and> (\<exists>bytes. generateAndDownloadMidi_gene sample_encoder (\<lambda>_. 1 / 2) 1700000000000 =
        Inr \<lparr>url = bytes, filename = ''citypop-progression-1700000000000-87bpm.mid''\<rparr>)
   \<and> voicingKeys (no_options\<lparr>era := Some E70s\<rparr>) = []
   \<and> generateAndDownloadMidi sample_encoder (no_options\<lparr>era := Some E70s\<rparr>) (\<lambda>_. 1 / 2)
        1700000000000 = Inl GenerationFailed"
proof -
  note t = filename_form [of sample_encoder _ "\<lambda>_. 1 / 2" 1700000000000]
  have k: "voicingKeys no_options \<noteq> []" by (simp add: voicingKeys_no_options)
  have now: "nat_to_string 1700000000000 = ''1700000000000''"
    by (simp add: nat_to_string_def decimal_digits.simps digit_char_def)
  have rt: "run_tempo no_options (\<lambda>_. 1 / 2) = 255 / 2"
    by (simp add: run_tempo_def active_style_def no_options_def)
  have n1: "number_to_string (math_round (255 / 2)) = ''128''"
    by (simp add: math_round_def number_to_string_def nat_to_string_def
        decimal_digits.simps digit_char_def)
  have t2: "(72 + 1 / 2 * 30 :: real) = 87" by simp
  have n2: "number_to_string (math_round 87) = ''87''"
    by (simp add: math_round_def number_to_string_def nat_to_string_def
        decimal_digits.simps digit_char_def)
  from run_example obtain track where
    tr: "generateTrack no_options (\<lambda>_. 1 / 2) = Inr track"
    and enc: "sample_encoder (run_tempo no_options (\<lambda>_. 1 / 2)) (concat (map events track))
        = Inr (map nat (concat (map smoothed track)))"
    by (elim exE conjE)
  from t [of no_options]
  have "generateAndDownloadMidi sample_encoder no_options (\<lambda>_. 1 / 2) 1700000000000 =
     (case generateTrack no_options (\<lambda>_. 1 / 2) of
        Inl e \<Rightarrow> Inl GenerationFailed
      | Inr track \<Rightarrow>
          (case sample_encoder (run_tempo no_options (\<lambda>_. 1 / 2)) (concat (map events track)) of
             Inl e \<Rightarrow> Inl GenerationFailed
           | Inr bytes \<Rightarrow>
               Inr \<lparr>url = bytes,
                    filename = ''citypop-''
                     @ (case era no_options of None \<Rightarrow> ''standard'' | Some e \<Rightarrow> era_name e)
                     @ ''-''
                     @ (case style no_options of None \<Rightarrow> ''uptempo'' | Some s \<Rightarrow> style_name s)
                     @ ''-'' @ nat_to_string 1700000000000 @ ''-''
                     @ number_to_string (math_round (run_tempo no_options (\<lambda>_. 1 / 2)))
                     @ ''bpm.mid''\<rparr>))"
    by (rule conjunct1)
  then have a: "generateAndDownloadMidi sample_encoder no_options (\<lambda>_. 1 / 2) 1700000000000 =
        Inr \<lparr>url = map nat (concat (map smoothed track)),
             filename = ''citypop-standard-uptempo-1700000000000-128bpm.mid''\<rparr>"
    unfolding tr sum.case enc unfolding rt n1 now by (simp add: no_options_def)
  from run_example_gene obtain track' where
    tr': "generateTrack_gene (\<lambda>_. 1 / 2) = Inr track'"
    and enc': "sample_encoder 87 track' = Inr (map (\<lambda>ev. nat (midi ev)) track')"
    by (elim exE conjE)
  from t [of no_options]
  have "generateAndDownloadMidi_gene sample_encoder (\<lambda>_. 1 / 2) 1700000000000 =
     (case generateTrack_gene (\<lambda>_. 1 / 2) of
        Inl e \<Rightarrow> Inl GenerationFailed
      | Inr track \<Rightarrow>
          (case sample_encoder (72 + 1 / 2 * 30) track of
             Inl e \<Rightarrow> Inl GenerationFailed
           | Inr bytes \<Rightarrow>
               Inr \<lparr>url = bytes,
                    filename = ''citypop-progression-'' @ nat_to_string 1700000000000 @ ''-''
                     @ number_to_string (math_round (72 + 1 / 2 * 30)) @ ''bpm.mid''\<rparr>))"
    by (rule conjunct2 [THEN conjunct2, THEN conjunct1])
  then have b: "generateAndDownloadMidi_gene sample_encoder (\<lambda>_. 1 / 2) 1700000000000 =
        Inr \<lparr>url = map (\<lambda>ev. nat (midi ev)) track',
             filename = ''citypop-progression-1700000000000-87bpm.mid''\<rparr>"
    unfolding tr' sum.case t2 enc' unfolding n2 now by simp
  from t [of "no_options\<lparr>era := Some E70s\<rparr>"]
  have "voicingKeys (no_options\<lparr>era := Some E70s\<rparr>) = [] \<longrightarrow>
        generateAndDownloadMidi sample_encoder (no_options\<lparr>era := Some E70s\<rparr>) (\<lambda>_. 1 / 2)
          1700000000000 = Inl GenerationFailed"
    by (rule conjunct2 [THEN conjunct2, THEN conjunct2, THEN conjunct2, THEN conjunct2,
          THEN conjunct1])
  with voicingKeys_70s
  have c: "generateAndDownloadMidi sample_encoder (no_options\<lparr>era := Some E70s\<rparr>) (\<lambda>_. 1 / 2)
        1700000000000 = Inl GenerationFailed"
    by blast
  show ?thesis using valid_rand_half k a b c voicingKeys_70s by blast
qed

end
